theory Spec2Isabelle
  imports Main "HOL-Library.AList"
begin

section \<open>Data model of the remote-connection layer (server_remotes.go)\<close>

text \<open>
  An \<open>UpstreamClient\<close> is an interface value in the source; the model identifies a
  connection handle by a number. Go errors are their messages. A function that can panic
  returns a value of \<open>res\<close>.
\<close>

type_synonym client = nat
type_synonym err = string

datatype 'a res = Panic string | Ok 'a

text \<open>
  The two contexts of the source: \<open>context.Background()\<close>, which is never cancelled, and
  the server's \<open>sr.parent.bgCtx\<close>.
\<close>

datatype ctx = Background | BgCtx

datatype RepoWatchParams = RepoWatchParams (wRepo: string) (wRefspec: string)

datatype RefIdentifier = RefIdentifier (idRepo: string) (idRef: string)

datatype RefState = RefState (GitBase: string) (GitBranch: string) (History: "string list")

datatype RefUpdateUpstreamParams =
  RefUpdateUpstreamParams (refId: RefIdentifier) (Force: bool) (State: RefState)

text \<open>The methods of \<open>UpstreamClient\<close> that the file calls on a connection.\<close>

datatype rpc = RepoWatch RepoWatchParams | RefUpdate RefUpdateUpstreamParams | Close

text \<open>A call on a connection: the context handed to it, the connection, the method.\<close>

type_synonym call = "ctx \<times> client \<times> rpc"

text \<open>
  The remote peers are outside the program: \<open>upstream\<close> gives the error (or none) of a
  call, from the number of calls made before it and the call itself.
\<close>

type_synonym upstream = "nat \<Rightarrow> call \<Rightarrow> err option"

text \<open>
  The injected connection factory \<open>newClient(ctx, endpoint)\<close>. Its outcome may differ
  from one dial to the next, so it also takes the number of dials made before.
\<close>

type_synonym factory = "nat \<Rightarrow> ctx \<Rightarrow> string \<Rightarrow> err + client"

text \<open>
  Modelled from the spec: the declarations of the repository types are not part of
  server_remotes.go. The fields are the ones \<open>tryReconnect\<close> reads:
  \<open>repo.config.Remotes\<close>, \<open>repo.config.Refs\<close>, \<open>repo.refdb\<close>, and of a ref object
  \<open>gitBase\<close>, \<open>gitBranch\<close> and \<open>history()\<close>. Go maps that the code ranges over are
  association lists; the list order stands for the iteration order, which Go leaves
  unspecified.
\<close>

record RepoRemoteConfiguration =
  Endpoint :: string
  Repo :: string
  Refspec :: string

record RefConfiguration =
  Overwrite :: bool
  Upstream :: string

record RepoConfiguration =
  Remotes :: "(string \<times> RepoRemoteConfiguration) list"
  Refs :: "(string \<times> RefConfiguration) list"

record serverRef =
  gitBase :: string
  gitBranch :: string
  history :: "string list"

record serverRepo =
  config :: RepoConfiguration
  refdb :: "(string \<times> serverRef) list"

text \<open>
  Modelled from the spec: \<open>refdb.Lookup\<close> is not part of server_remotes.go; it yields
  the ref when it currently exists locally and nil (\<open>None\<close>) otherwise.
\<close>

definition Lookup :: "(string \<times> serverRef) list \<Rightarrow> string \<Rightarrow> serverRef option" where
  "Lookup db refName = map_of db refName"

text \<open>
  Modelled from the spec: the backoff package is not part of the sources. A policy has an
  initial interval, a multiplier and a total elapsed-time budget, in milliseconds.
\<close>

record ExponentialBackOff =
  InitialInterval :: nat
  Multiplier :: nat
  MaxElapsedTime :: nat

text \<open>
  The disconnect watcher is the goroutine started by \<open>getOrCreateClient\<close>. Its program
  counter: blocked on \<open>DisconnectNotify\<close>; past the \<open>closed\<close> check and about to take
  \<open>sr.mu\<close> for the delete; inside the retry loop (with the current interval of the
  backoff policy); returned.
\<close>

datatype pc = AwaitDisconnect | AwaitRemove | Retrying nat | Exited

text \<open>
  The server. \<open>conn\<close>, \<open>newClient\<close> are the fields of \<open>serverRemotes\<close>; \<open>closed\<close>,
  \<open>repos\<close> and \<open>bgCtx\<close> (here: whether it has been cancelled) are the fields of its
  parent \<open>Server\<close> that the file reads. \<open>conn\<close> is kept as
  an association list so that "one entry per endpoint" is a property to prove, not a
  property of the type; a nil map and an empty map are both \<open>[]\<close>. The other fields
  record what the code does to the outside: the dials made through the factory, the
  calls made on connections, the watcher goroutines, the connections whose callbacks
  were set (with the endpoint the ref-update callback closes over), and the log records.
\<close>

record Server =
  conn :: "(string \<times> client) list"
  newClient :: "factory option"
  closed :: bool
  bgCtxDone :: bool
  repos :: "(string \<times> serverRepo) list"
  dials :: "(ctx \<times> string) list"
  calls :: "call list"
  watchers :: "(client \<times> string \<times> pc) list"
  refUpdateCallback :: "(client \<times> string) list"
  refUpdateSymbolicCallback :: "client list"
  logs :: "(string \<times> string) list"

section \<open>The connection manager\<close>

text \<open>
  \<open>ConfigureRemoteClientFunc\<close>: panics when a factory is already set. The argument is
  a Go func value, which may be nil (\<open>None\<close>).
\<close>

definition ConfigureRemoteClientFunc :: "Server \<Rightarrow> factory option \<Rightarrow> Server res" where
  "ConfigureRemoteClientFunc s new =
     (if newClient s \<noteq> None then Panic ''(serverRemotes).newClient is already set''
      else Ok (s\<lparr>newClient := new\<rparr>))"

text \<open>\<open>getClient\<close>: \<open>None\<close> is the pair (nil, false) of the source.\<close>

definition getClient :: "Server \<Rightarrow> string \<Rightarrow> client option" where
  "getClient sr endpoint = map_of (conn sr) endpoint"

text \<open>
  \<open>getOrCreateClient\<close>. The context argument is shadowed by \<open>sr.parent.bgCtx\<close> before the
  dial, so the factory always receives \<open>BgCtx\<close>. On a successful dial the function logs,
  starts the watcher goroutine, sets the two callbacks and stores the connection.
\<close>

definition getOrCreateClient :: "Server \<Rightarrow> ctx \<Rightarrow> string \<Rightarrow> ((err + client) \<times> Server) res" where
  "getOrCreateClient sr c endpoint =
     (case newClient sr of
        None \<Rightarrow> Panic ''(serverRemotes).newClient must be set with (*Server).ConfigureRemoteClientFunc''
      | Some new \<Rightarrow>
          (case map_of (conn sr) endpoint of
             Some cl \<Rightarrow> Ok (Inr cl, sr)
           | None \<Rightarrow>
               (case new (length (dials sr)) BgCtx endpoint of
                  Inl e \<Rightarrow> Ok (Inl e, sr\<lparr>dials := dials sr @ [(BgCtx, endpoint)]\<rparr>)
                | Inr cl \<Rightarrow>
                    Ok (Inr cl,
                        sr\<lparr>dials := dials sr @ [(BgCtx, endpoint)],
                           logs := logs sr @ [(''connected-to-remote'', endpoint)],
                           watchers := watchers sr @ [(cl, endpoint, AwaitDisconnect)],
                           refUpdateCallback := refUpdateCallback sr @ [(cl, endpoint)],
                           refUpdateSymbolicCallback := refUpdateSymbolicCallback sr @ [cl],
                           conn := AList.update endpoint cl (conn sr)\<rparr>))))"

text \<open>Issuing a call on a connection: ask the peer, record the call.\<close>

definition issue :: "upstream \<Rightarrow> call \<Rightarrow> call list \<Rightarrow> err option \<times> call list" where
  "issue up cll cs = (up (length cs) cll, cs @ [cll])"

text \<open>
  \<open>closeAndRemoveClient\<close>: panics when the endpoint has no entry; otherwise deletes the
  entry and returns what \<open>Close\<close> returns. \<open>Close\<close> takes no context; the call is recorded
  with \<open>Background\<close>.
\<close>

definition closeAndRemoveClient :: "upstream \<Rightarrow> Server \<Rightarrow> string \<Rightarrow> (err option \<times> Server) res" where
  "closeAndRemoveClient up sr endpoint =
     (case map_of (conn sr) endpoint of
        None \<Rightarrow> Panic (''no remote client for endpoint '' @ endpoint)
      | Some cl \<Rightarrow>
          (case issue up (Background, cl, Close) (calls sr) of
             (e, cs) \<Rightarrow> Ok (e, sr\<lparr>conn := AList.delete endpoint (conn sr), calls := cs\<rparr>)))"

section \<open>Re-establishment\<close>

text \<open>
  The inner loop of \<open>reestablishRepo\<close>, over \<open>repo.config.Refs\<close>, for one matching
  remote: a ref that is configured to overwrite from this remote and that exists locally
  is pushed with \<open>Force: true\<close> and its current state; the first error ends the loop.
\<close>

fun pushRefs :: "upstream \<Rightarrow> ctx \<Rightarrow> client \<Rightarrow> string \<Rightarrow> RepoRemoteConfiguration \<Rightarrow>
    (string \<times> serverRef) list \<Rightarrow> (string \<times> RefConfiguration) list \<Rightarrow> call list \<Rightarrow>
    err option \<times> call list" where
  "pushRefs up c cl remoteName remote db [] cs = (None, cs)"
| "pushRefs up c cl remoteName remote db ((refName, refConfig) # rest) cs =
     (case Lookup db refName of
        Some ob \<Rightarrow>
          if Overwrite refConfig \<and> Upstream refConfig = remoteName then
            (case issue up (c, cl, RefUpdate (RefUpdateUpstreamParams
                      (RefIdentifier (Repo remote) refName) True
                      (RefState (gitBase ob) (gitBranch ob) (history ob)))) cs of
               (Some e, cs') \<Rightarrow> (Some e, cs')
             | (None, cs') \<Rightarrow> pushRefs up c cl remoteName remote db rest cs')
          else pushRefs up c cl remoteName remote db rest cs
      | None \<Rightarrow> pushRefs up c cl remoteName remote db rest cs)"

text \<open>The outer loop of \<open>reestablishRepo\<close>, over \<open>repo.config.Remotes\<close>.\<close>

fun watchRemotes :: "upstream \<Rightarrow> ctx \<Rightarrow> client \<Rightarrow> string \<Rightarrow> serverRepo \<Rightarrow>
    (string \<times> RepoRemoteConfiguration) list \<Rightarrow> call list \<Rightarrow> err option \<times> call list" where
  "watchRemotes up c cl endpoint repo [] cs = (None, cs)"
| "watchRemotes up c cl endpoint repo ((remoteName, remote) # rest) cs =
     (if Endpoint remote = endpoint then
        (case issue up (c, cl, RepoWatch (RepoWatchParams (Repo remote) (Refspec remote))) cs of
           (Some e, cs') \<Rightarrow> (Some e, cs')
         | (None, cs') \<Rightarrow>
             (case pushRefs up c cl remoteName remote (refdb repo) (Refs (config repo)) cs' of
                (Some e, cs'') \<Rightarrow> (Some e, cs'')
              | (None, cs'') \<Rightarrow> watchRemotes up c cl endpoint repo rest cs''))
      else watchRemotes up c cl endpoint repo rest cs)"

definition reestablishRepo :: "upstream \<Rightarrow> ctx \<Rightarrow> client \<Rightarrow> string \<Rightarrow> serverRepo \<Rightarrow>
    call list \<Rightarrow> err option \<times> call list" where
  "reestablishRepo up c cl endpoint repo cs =
     watchRemotes up c cl endpoint repo (Remotes (config repo)) cs"

text \<open>The loop of \<open>tryReconnect\<close> over \<open>sr.parent.repos\<close>.\<close>

fun reestablishRepos :: "upstream \<Rightarrow> ctx \<Rightarrow> client \<Rightarrow> string \<Rightarrow>
    (string \<times> serverRepo) list \<Rightarrow> call list \<Rightarrow> err option \<times> call list" where
  "reestablishRepos up c cl endpoint [] cs = (None, cs)"
| "reestablishRepos up c cl endpoint ((repoName, repo) # rest) cs =
     (case reestablishRepo up c cl endpoint repo cs of
        (Some e, cs') \<Rightarrow> (Some e, cs')
      | (None, cs') \<Rightarrow> reestablishRepos up c cl endpoint rest cs')"

text \<open>\<open>tryReconnect\<close> (its Debug log records are left out).\<close>

definition tryReconnect :: "upstream \<Rightarrow> ctx \<Rightarrow> Server \<Rightarrow> string \<Rightarrow> (err option \<times> Server) res" where
  "tryReconnect up c sr endpoint =
     (case getOrCreateClient sr c endpoint of
        Panic m \<Rightarrow> Panic m
      | Ok (Inl e, sr') \<Rightarrow> Ok (Some e, sr')
      | Ok (Inr cl, sr') \<Rightarrow>
          (case reestablishRepos up c cl endpoint (repos sr') (calls sr') of
             (e, cs) \<Rightarrow> Ok (e, sr'\<lparr>calls := cs\<rparr>)))"

section \<open>Backoff and the retry loop\<close>

text \<open>\<open>remoteBackOff\<close>: 500 ms, multiplier 2, one minute.\<close>

definition remoteBackOff :: ExponentialBackOff where
  "remoteBackOff = \<lparr>InitialInterval = 500, Multiplier = 2, MaxElapsedTime = 1 * 60000\<rparr>"

text \<open>
  Modelled from the spec: \<open>NextBackOff\<close> of the absent backoff package. It stops once
  the elapsed time exceeds the budget; otherwise it yields the current interval and
  multiplies it for the next round. The result is the interval to sleep (or \<open>None\<close> for
  stop) and the next current interval.
\<close>

definition NextBackOff :: "ExponentialBackOff \<Rightarrow> nat \<Rightarrow> nat \<Rightarrow> nat option \<times> nat" where
  "NextBackOff p cur elapsed =
     (if elapsed > MaxElapsedTime p then (None, cur) else (Some cur, cur * Multiplier p))"

text \<open>Whether a context is done: \<open>context.Background()\<close> never is.\<close>

definition ctxDone :: "Server \<Rightarrow> ctx \<Rightarrow> bool" where
  "ctxDone sr c = (case c of Background \<Rightarrow> False | BgCtx \<Rightarrow> bgCtxDone sr)"

datatype outcome = Succeeded | GaveUp err | Sleep nat nat

text \<open>
  Modelled from the spec: one round of \<open>RetryNotifyWithContext\<close> of the absent backoff
  package, with the operation and the notify function that the watcher passes to it
  (\<open>tryReconnect\<close>, and a Debug log record). A round gives up when its context is done;
  otherwise it runs the operation, and after a failure asks the policy, with the elapsed
  time read then, whether to stop or how long to sleep.
\<close>

definition retryAttempt :: "upstream \<Rightarrow> ctx \<Rightarrow> ExponentialBackOff \<Rightarrow> string \<Rightarrow> nat \<Rightarrow> nat \<Rightarrow>
    Server \<Rightarrow> (outcome \<times> Server) res" where
  "retryAttempt up c p endpoint cur elapsed sr =
     (if ctxDone sr c then Ok (GaveUp ''context canceled'', sr)
      else
        (case tryReconnect up c sr endpoint of
           Panic m \<Rightarrow> Panic m
         | Ok (None, sr') \<Rightarrow> Ok (Succeeded, sr')
         | Ok (Some e, sr') \<Rightarrow>
             (case NextBackOff p cur elapsed of
                (None, cur') \<Rightarrow> Ok (GaveUp e, sr')
              | (Some d, cur') \<Rightarrow>
                  Ok (Sleep d cur', sr'\<lparr>logs := logs sr' @ [(''retry-reconnect-after-error'', e)]\<rparr>))))"

text \<open>
  Modelled from the spec: the retry loop. \<open>dur k\<close> is the time in ms that round \<open>k\<close>
  takes; the sleeps add to the elapsed time. The loop need not end for every policy
  (interval 0), so it takes fuel: \<open>None\<close> is "still running". The result is the final
  error, the intervals slept, the elapsed time at the end, and the server.
\<close>

fun RetryNotifyWithContext :: "nat \<Rightarrow> upstream \<Rightarrow> ctx \<Rightarrow> ExponentialBackOff \<Rightarrow> string \<Rightarrow>
    (nat \<Rightarrow> nat) \<Rightarrow> nat \<Rightarrow> nat \<Rightarrow> nat \<Rightarrow> Server \<Rightarrow>
    (err option \<times> nat list \<times> nat \<times> Server) res option" where
  "RetryNotifyWithContext 0 up c p endpoint dur k cur elapsed sr = None"
| "RetryNotifyWithContext (Suc fuel) up c p endpoint dur k cur elapsed sr =
     (case retryAttempt up c p endpoint cur (elapsed + dur k) sr of
        Panic m \<Rightarrow> Some (Panic m)
      | Ok (Succeeded, sr') \<Rightarrow> Some (Ok (None, [], elapsed + dur k, sr'))
      | Ok (GaveUp e, sr') \<Rightarrow> Some (Ok (Some e, [], elapsed + dur k, sr'))
      | Ok (Sleep d cur', sr') \<Rightarrow>
          (case RetryNotifyWithContext fuel up c p endpoint dur (Suc k) cur'
                  (elapsed + dur k + d) sr' of
             None \<Rightarrow> None
           | Some (Panic m) \<Rightarrow> Some (Panic m)
           | Some (Ok (e, ds, t, sr'')) \<Rightarrow> Some (Ok (e, d # ds, t, sr''))))"

section \<open>The disconnect watcher\<close>

text \<open>
  The parts of the goroutine body, in the order of the source: the Warn record after the
  \<open>closed\<close> check, the delete under \<open>sr.mu\<close>, and the Error record after a failed loop.
\<close>

definition logDisconnected :: "Server \<Rightarrow> Server" where
  "logDisconnected sr = sr\<lparr>logs := logs sr @ [(''disconnected'', [])]\<rparr>"

definition deleteConn :: "string \<Rightarrow> Server \<Rightarrow> Server" where
  "deleteConn endpoint sr = sr\<lparr>conn := AList.delete endpoint (conn sr)\<rparr>"

definition logReconnectFailed :: "err \<Rightarrow> Server \<Rightarrow> Server" where
  "logReconnectFailed e sr = sr\<lparr>logs := logs sr @ [(''reconnect-failed-after-retries'', e)]\<rparr>"

text \<open>
  The goroutine body after \<open>DisconnectNotify\<close> has fired, run without interruption.
\<close>

definition watcher :: "nat \<Rightarrow> upstream \<Rightarrow> (nat \<Rightarrow> nat) \<Rightarrow> string \<Rightarrow> Server \<Rightarrow> Server res option" where
  "watcher fuel up dur endpoint sr =
     (if closed sr then Some (Ok sr)
      else
        (case RetryNotifyWithContext fuel up Background remoteBackOff endpoint dur 0
                (InitialInterval remoteBackOff) 0 (deleteConn endpoint (logDisconnected sr)) of
           None \<Rightarrow> None
         | Some (Panic m) \<Rightarrow> Some (Panic m)
         | Some (Ok (None, ds, t, sr')) \<Rightarrow> Some (Ok sr')
         | Some (Ok (Some e, ds, t, sr')) \<Rightarrow> Some (Ok (logReconnectFailed e sr'))))"

text \<open>
  The same body as steps of goroutine \<open>i\<close> of the server, so that other goroutines can
  run in between. A step that is not enabled has no successor (\<open>None\<close>).
\<close>

definition setPc :: "nat \<Rightarrow> pc \<Rightarrow> Server \<Rightarrow> Server" where
  "setPc i q sr =
     sr\<lparr>watchers := (watchers sr)[i := (fst (watchers sr ! i), fst (snd (watchers sr ! i)), q)]\<rparr>"

definition watcherAt :: "Server \<Rightarrow> nat \<Rightarrow> (client \<times> string \<times> pc) option" where
  "watcherAt sr i = (if i < length (watchers sr) then Some (watchers sr ! i) else None)"

text \<open>The receive from \<open>DisconnectNotify\<close> and the read of \<open>closed\<close>.\<close>

definition watcherSignal :: "nat \<Rightarrow> Server \<Rightarrow> Server option" where
  "watcherSignal i sr =
     (case watcherAt sr i of
        Some (cl, endpoint, AwaitDisconnect) \<Rightarrow>
          if closed sr then Some (setPc i Exited sr)
          else Some (setPc i AwaitRemove (logDisconnected sr))
      | _ \<Rightarrow> None)"

definition watcherRemove :: "nat \<Rightarrow> Server \<Rightarrow> Server option" where
  "watcherRemove i sr =
     (case watcherAt sr i of
        Some (cl, endpoint, AwaitRemove) \<Rightarrow>
          Some (setPc i (Retrying (InitialInterval remoteBackOff)) (deleteConn endpoint sr))
      | _ \<Rightarrow> None)"

text \<open>
  One round of the retry loop; \<open>elapsed\<close> is the elapsed time the policy reads in this
  round. A panic ends the program.
\<close>

definition watcherAttempt :: "upstream \<Rightarrow> nat \<Rightarrow> nat \<Rightarrow> Server \<Rightarrow> Server option" where
  "watcherAttempt up i elapsed sr =
     (case watcherAt sr i of
        Some (cl, endpoint, Retrying cur) \<Rightarrow>
          (case retryAttempt up Background remoteBackOff endpoint cur elapsed sr of
             Panic m \<Rightarrow> None
           | Ok (Succeeded, sr') \<Rightarrow> Some (setPc i Exited sr')
           | Ok (GaveUp e, sr') \<Rightarrow> Some (setPc i Exited (logReconnectFailed e sr'))
           | Ok (Sleep d cur', sr') \<Rightarrow> Some (setPc i (Retrying cur') sr'))
      | _ \<Rightarrow> None)"

section \<open>Runs of the server\<close>

text \<open>
  What can happen to a server: the calls of the connection manager, from any goroutine;
  the steps of the watchers; and, from outside this file, closing the server, cancelling
  its background context and changing the repositories.
\<close>

datatype action =
    Configure "factory option"
  | CallGetClient string
  | CallGetOrCreateClient string
  | CallCloseAndRemoveClient string
  | WatcherSignal nat
  | WatcherRemove nat
  | WatcherAttempt nat nat
  | ServerClose
  | CancelBgCtx
  | SetRepos "(string \<times> serverRepo) list"

fun step :: "upstream \<Rightarrow> action \<Rightarrow> Server \<Rightarrow> Server option" where
  "step up (Configure new) sr =
     (case ConfigureRemoteClientFunc sr new of Panic m \<Rightarrow> None | Ok sr' \<Rightarrow> Some sr')"
| "step up (CallGetClient endpoint) sr = Some sr"
| "step up (CallGetOrCreateClient endpoint) sr =
     (case getOrCreateClient sr BgCtx endpoint of Panic m \<Rightarrow> None | Ok (r, sr') \<Rightarrow> Some sr')"
| "step up (CallCloseAndRemoveClient endpoint) sr =
     (case closeAndRemoveClient up sr endpoint of Panic m \<Rightarrow> None | Ok (r, sr') \<Rightarrow> Some sr')"
| "step up (WatcherSignal i) sr = watcherSignal i sr"
| "step up (WatcherRemove i) sr = watcherRemove i sr"
| "step up (WatcherAttempt i elapsed) sr = watcherAttempt up i elapsed sr"
| "step up ServerClose sr = Some (sr\<lparr>closed := True\<rparr>)"
| "step up CancelBgCtx sr = Some (sr\<lparr>bgCtxDone := True\<rparr>)"
| "step up (SetRepos rs) sr = Some (sr\<lparr>repos := rs\<rparr>)"

fun exec :: "upstream \<Rightarrow> action list \<Rightarrow> Server \<Rightarrow> Server option" where
  "exec up [] sr = Some sr"
| "exec up (a # as) sr = (case step up a sr of None \<Rightarrow> None | Some sr' \<Rightarrow> exec up as sr')"

text \<open>A server at start: nothing configured, nothing connected.\<close>

definition newServer :: Server where
  "newServer = \<lparr>conn = [], newClient = None, closed = False, bgCtxDone = False, repos = [],
     dials = [], calls = [], watchers = [], refUpdateCallback = [],
     refUpdateSymbolicCallback = [], logs = []\<rparr>"

section \<open>The calls that re-establishment is to make\<close>

text \<open>
  These definitions follow the words of the specification, not the loops of the code:
  for every repository and every remote of it whose endpoint is the reconnected one, the
  watch of that remote's repo and refspec; and the forced update of every ref whose
  configuration names that remote as upstream with overwrite set and that exists in the
  local ref database, carrying its base revision, its branch and its history.
\<close>

definition watchOf :: "ctx \<Rightarrow> client \<Rightarrow> RepoRemoteConfiguration \<Rightarrow> call" where
  "watchOf c cl remote = (c, cl, RepoWatch (RepoWatchParams (Repo remote) (Refspec remote)))"

definition pushOf :: "ctx \<Rightarrow> client \<Rightarrow> RepoRemoteConfiguration \<Rightarrow> string \<Rightarrow> serverRef \<Rightarrow> call" where
  "pushOf c cl remote refName ob =
     (c, cl, RefUpdate (RefUpdateUpstreamParams (RefIdentifier (Repo remote) refName) True
        (RefState (gitBase ob) (gitBranch ob) (history ob))))"

definition expectedPushes :: "ctx \<Rightarrow> client \<Rightarrow> string \<Rightarrow> RepoRemoteConfiguration \<Rightarrow>
    (string \<times> serverRef) list \<Rightarrow> (string \<times> RefConfiguration) list \<Rightarrow> call set" where
  "expectedPushes c cl remoteName remote db refs =
     {pushOf c cl remote refName ob | refName refConfig ob.
        (refName, refConfig) \<in> set refs \<and> Upstream refConfig = remoteName \<and>
        Overwrite refConfig \<and> Lookup db refName = Some ob}"

definition expectedForRemotes :: "ctx \<Rightarrow> client \<Rightarrow> string \<Rightarrow> serverRepo \<Rightarrow>
    (string \<times> RepoRemoteConfiguration) list \<Rightarrow> call set" where
  "expectedForRemotes c cl endpoint repo remotes =
     (\<Union>(remoteName, remote) \<in> {x \<in> set remotes. Endpoint (snd x) = endpoint}.
        insert (watchOf c cl remote)
          (expectedPushes c cl remoteName remote (refdb repo) (Refs (config repo))))"

definition expectedCalls :: "ctx \<Rightarrow> client \<Rightarrow> string \<Rightarrow> (string \<times> serverRepo) list \<Rightarrow> call set" where
  "expectedCalls c cl endpoint rs =
     (\<Union>(repoName, repo) \<in> set rs. expectedForRemotes c cl endpoint repo (Remotes (config repo)))"

section \<open>Examples\<close>

text \<open>A factory that connects, one that refuses, peers that accept every call or fail the
  first one, and a server with one repository that mirrors from \<open>peerA\<close>.\<close>

definition dialOk :: factory where
  "dialOk n c endpoint = Inr (Suc n)"

definition dialRefused :: factory where
  "dialRefused n c endpoint = Inl ''connection refused''"

definition peerOk :: upstream where
  "peerOk n cll = None"

definition peerFailsFirst :: upstream where
  "peerFailsFirst n cll = (if n = 0 then Some ''unavailable'' else None)"

definition exampleRemote :: RepoRemoteConfiguration where
  "exampleRemote = \<lparr>Endpoint = ''peerA'', Repo = ''up/r1'', Refspec = ''*''\<rparr>"

definition exampleRef :: serverRef where
  "exampleRef = \<lparr>gitBase = ''c0ffee'', gitBranch = ''master'', history = [''op1'', ''op2'']\<rparr>"

definition exampleRepo :: serverRepo where
  "exampleRepo =
     \<lparr>config = \<lparr>Remotes = [(''origin'', exampleRemote)],
                Refs = [(''main'', \<lparr>Overwrite = True, Upstream = ''origin''\<rparr>),
                        (''dev'', \<lparr>Overwrite = False, Upstream = ''origin''\<rparr>)]\<rparr>,
      refdb = [(''main'', exampleRef), (''dev'', exampleRef)]\<rparr>"

definition exampleServer :: Server where
  "exampleServer = newServer\<lparr>newClient := Some dialOk, repos := [(''r1'', exampleRepo)]\<rparr>"

text \<open>The example server after a reconnect whose watch call failed.\<close>

definition afterFailedWatch :: Server where
  "afterFailedWatch =
     exampleServer\<lparr>dials := [(BgCtx, ''peerA'')],
       logs := [(''connected-to-remote'', ''peerA'')],
       watchers := [(1, ''peerA'', AwaitDisconnect)],
       refUpdateCallback := [(1, ''peerA'')],
       refUpdateSymbolicCallback := [1],
       conn := [(''peerA'', 1)],
       calls := [watchOf Background 1 exampleRemote]\<rparr>"

text \<open>Rounds of 20 seconds each, and a server whose factory refuses every dial, before and
  after the retry loop.\<close>

definition slowRounds :: "nat \<Rightarrow> nat" where
  "slowRounds k = 20000"

definition refusingServer :: Server where
  "refusingServer = newServer\<lparr>newClient := Some dialRefused\<rparr>"

definition refusingServerAfterRetries :: Server where
  "refusingServerAfterRetries =
     refusingServer\<lparr>dials := [(BgCtx, ''peerA''), (BgCtx, ''peerA''), (BgCtx, ''peerA'')],
       logs := [(''retry-reconnect-after-error'', ''connection refused''),
                (''retry-reconnect-after-error'', ''connection refused'')]\<rparr>"

text \<open>The actions that dial: a direct call of \<open>getOrCreateClient\<close> and a round of a
  watcher's retry loop.\<close>

fun dialling :: "action \<Rightarrow> bool" where
  "dialling (CallGetOrCreateClient E) = True"
| "dialling (WatcherAttempt i el) = True"
| "dialling a = False"

text \<open>The example server with a connection to \<open>peerA\<close>; the same after
  \<open>closeAndRemoveClient\<close>; and after a new call of \<open>getOrCreateClient\<close>. A run of a
  new server, and the server it ends in.\<close>

definition connectedServer :: Server where
  "connectedServer =
     exampleServer\<lparr>dials := [(BgCtx, ''peerA'')],
       logs := [(''connected-to-remote'', ''peerA'')],
       watchers := [(1, ''peerA'', AwaitDisconnect)],
       refUpdateCallback := [(1, ''peerA'')],
       refUpdateSymbolicCallback := [1],
       conn := [(''peerA'', 1)]\<rparr>"

definition afterClose :: Server where
  "afterClose = connectedServer\<lparr>conn := [], calls := [(Background, 1, Close)]\<rparr>"

definition afterRedial :: Server where
  "afterRedial =
     afterClose\<lparr>dials := [(BgCtx, ''peerA''), (BgCtx, ''peerA'')],
       logs := [(''connected-to-remote'', ''peerA''), (''connected-to-remote'', ''peerA'')],
       watchers := [(1, ''peerA'', AwaitDisconnect), (2, ''peerA'', AwaitDisconnect)],
       refUpdateCallback := [(1, ''peerA''), (2, ''peerA'')],
       refUpdateSymbolicCallback := [1, 2],
       conn := [(''peerA'', 2)]\<rparr>"

definition exampleRun :: "action list" where
  "exampleRun = [Configure (Some dialOk), CallGetOrCreateClient ''peerA'',
     CallGetOrCreateClient ''peerA'', CallGetOrCreateClient ''peerB'',
     WatcherSignal 0, WatcherRemove 0, WatcherAttempt 0 0]"

definition afterExampleRun :: Server where
  "afterExampleRun =
     newServer\<lparr>newClient := Some dialOk,
       dials := [(BgCtx, ''peerA''), (BgCtx, ''peerB''), (BgCtx, ''peerA'')],
       logs := [(''connected-to-remote'', ''peerA''), (''connected-to-remote'', ''peerB''),
                (''disconnected'', []), (''connected-to-remote'', ''peerA'')],
       watchers := [(1, ''peerA'', Exited), (2, ''peerB'', AwaitDisconnect),
                    (3, ''peerA'', AwaitDisconnect)],
       refUpdateCallback := [(1, ''peerA''), (2, ''peerB''), (3, ''peerA'')],
       refUpdateSymbolicCallback := [1, 2, 3],
       conn := [(''peerB'', 2), (''peerA'', 3)]\<rparr>"

section \<open>The calls of re-establishment, in order\<close>

text \<open>
  The same calls as a list, in the order of the specification: repository by repository,
  in each repository remote by remote, for a remote with the reconnected endpoint first
  its watch and then the forced updates of its overwrite refs that exist locally.
\<close>

definition expectedPushList :: "ctx \<Rightarrow> client \<Rightarrow> string \<Rightarrow> RepoRemoteConfiguration \<Rightarrow>
    (string \<times> serverRef) list \<Rightarrow> (string \<times> RefConfiguration) list \<Rightarrow> call list" where
  "expectedPushList c cl remoteName remote db refs =
     concat (map (\<lambda>(refName, refConfig).
        case Lookup db refName of
          Some ob \<Rightarrow> if Upstream refConfig = remoteName \<and> Overwrite refConfig
                     then [pushOf c cl remote refName ob] else []
        | None \<Rightarrow> []) refs)"

definition expectedListForRemotes :: "ctx \<Rightarrow> client \<Rightarrow> string \<Rightarrow> serverRepo \<Rightarrow>
    (string \<times> RepoRemoteConfiguration) list \<Rightarrow> call list" where
  "expectedListForRemotes c cl endpoint repo remotes =
     concat (map (\<lambda>(remoteName, remote).
        if Endpoint remote = endpoint
        then watchOf c cl remote #
             expectedPushList c cl remoteName remote (refdb repo) (Refs (config repo))
        else []) remotes)"

definition expectedList :: "ctx \<Rightarrow> client \<Rightarrow> string \<Rightarrow> (string \<times> serverRepo) list \<Rightarrow> call list" where
  "expectedList c cl endpoint rs =
     concat (map (\<lambda>(repoName, repo).
        expectedListForRemotes c cl endpoint repo (Remotes (config repo))) rs)"

text \<open>
  Making calls in order until the first one that returns an error: that call is the last
  one made, and its error is the result.
\<close>

fun untilFirstError :: "upstream \<Rightarrow> call list \<Rightarrow> call list \<Rightarrow> err option \<times> call list" where
  "untilFirstError up [] cs = (None, cs)"
| "untilFirstError up (x # xs) cs =
     (case up (length cs) x of
        Some e \<Rightarrow> (Some e, cs @ [x])
      | None \<Rightarrow> untilFirstError up xs (cs @ [x]))"

text \<open>Watch calls and forced updates among the calls.\<close>

fun isWatch :: "call \<Rightarrow> bool" where
  "isWatch (c, cl, RepoWatch p) = True"
| "isWatch (c, cl, m) = False"

fun isForcedUpdate :: "call \<Rightarrow> bool" where
  "isForcedUpdate (c, cl, RefUpdate p) = Force p"
| "isForcedUpdate (c, cl, m) = False"

text \<open>
  The remotes of a repository with the reconnected endpoint, the refs of a repository
  that overwrite from a remote and exist locally, and how many watches and forced
  updates the specification asks for.
\<close>

definition matchingRemotes :: "string \<Rightarrow> serverRepo \<Rightarrow> (string \<times> RepoRemoteConfiguration) list" where
  "matchingRemotes endpoint repo =
     filter (\<lambda>(remoteName, remote). Endpoint remote = endpoint) (Remotes (config repo))"

definition overwrittenRefs :: "string \<Rightarrow> serverRepo \<Rightarrow> (string \<times> RefConfiguration) list" where
  "overwrittenRefs remoteName repo =
     filter (\<lambda>(refName, refConfig). Upstream refConfig = remoteName \<and> Overwrite refConfig \<and>
                Lookup (refdb repo) refName \<noteq> None) (Refs (config repo))"

definition watchCount :: "string \<Rightarrow> (string \<times> serverRepo) list \<Rightarrow> nat" where
  "watchCount endpoint rs =
     sum_list (map (\<lambda>(repoName, repo). length (matchingRemotes endpoint repo)) rs)"

definition pushCount :: "string \<Rightarrow> (string \<times> serverRepo) list \<Rightarrow> nat" where
  "pushCount endpoint rs =
     sum_list (map (\<lambda>(repoName, repo).
        sum_list (map (\<lambda>(remoteName, remote). length (overwrittenRefs remoteName repo))
                   (matchingRemotes endpoint repo))) rs)"

text \<open>
  \<open>n\<close> rounds of the retry loop that fail: each is a call of \<open>tryReconnect\<close> that returns
  an error, followed by the Debug log record of the notify function.
\<close>

fun failedRounds :: "upstream \<Rightarrow> string \<Rightarrow> nat \<Rightarrow> Server \<Rightarrow> Server option" where
  "failedRounds up endpoint 0 sr = Some sr"
| "failedRounds up endpoint (Suc n) sr =
     (case tryReconnect up Background sr endpoint of
        Ok (Some e, sr') \<Rightarrow>
          failedRounds up endpoint n (sr'\<lparr>logs := logs sr' @ [(''retry-reconnect-after-error'', e)]\<rparr>)
      | _ \<Rightarrow> None)"

text \<open>The refusing server after its watcher has run.\<close>

definition refusingServerAfterWatcher :: Server where
  "refusingServerAfterWatcher =
     refusingServer\<lparr>dials := [(BgCtx, ''peerA''), (BgCtx, ''peerA''), (BgCtx, ''peerA'')],
       logs := [(''disconnected'', []),
                (''retry-reconnect-after-error'', ''connection refused''),
                (''retry-reconnect-after-error'', ''connection refused''),
                (''reconnect-failed-after-retries'', ''connection refused'')]\<rparr>"

section \<open>Properties of the connection manager\<close>

text \<open>
  C9. A second call of \<open>ConfigureRemoteClientFunc\<close>, after a call that set a factory,
  panics; the factory set by the first call stays in place.
\<close>

theorem ConfigureRemoteClientFunc_second_call_panics:
  "ConfigureRemoteClientFunc s (Some f) = Ok s1 \<Longrightarrow>
     newClient s1 = Some f \<and>
     ConfigureRemoteClientFunc s1 g = Panic ''(serverRemotes).newClient is already set''"
  by (auto simp: ConfigureRemoteClientFunc_def split: if_splits)

theorem ConfigureRemoteClientFunc_second_call_panics_witness:
  "ConfigureRemoteClientFunc newServer (Some (\<lambda>n c e. Inr 7)) =
       Ok (newServer\<lparr>newClient := Some (\<lambda>n c e. Inr 7)\<rparr>) \<and>
   ConfigureRemoteClientFunc (newServer\<lparr>newClient := Some (\<lambda>n c e. Inr 7)\<rparr>)
       (Some (\<lambda>n c e. Inl ''refused'')) = Panic ''(serverRemotes).newClient is already set''"
proof -
  have h: "ConfigureRemoteClientFunc newServer (Some (\<lambda>n c e. Inr 7)) =
       Ok (newServer\<lparr>newClient := Some (\<lambda>n c e. Inr 7)\<rparr>)"
    by (simp add: ConfigureRemoteClientFunc_def newServer_def)
  from ConfigureRemoteClientFunc_second_call_panics [OF h] h show ?thesis by simp
qed

text \<open>
  C8. \<open>closeAndRemoveClient\<close> on an endpoint without an entry panics. With an entry it
  deletes that entry and no other, calls \<open>Close\<close> on the connection and returns what
  \<open>Close\<close> returned.
\<close>

theorem closeAndRemoveClient_contract:
  "(getClient sr E = None \<longrightarrow>
      closeAndRemoveClient up sr E = Panic (''no remote client for endpoint '' @ E)) \<and>
   (getClient sr E = Some cl \<longrightarrow>
      (\<exists>sr'. closeAndRemoveClient up sr E = Ok (up (length (calls sr)) (Background, cl, Close), sr') \<and>
         getClient sr' E = None \<and>
         (\<forall>E'. E' \<noteq> E \<longrightarrow> getClient sr' E' = getClient sr E') \<and>
         calls sr' = calls sr @ [(Background, cl, Close)]))"
  by (auto simp: closeAndRemoveClient_def getClient_def issue_def delete_conv')

theorem closeAndRemoveClient_contract_witness:
  "getClient newServer ''peerA'' = None \<and>
   closeAndRemoveClient (\<lambda>n c. None) newServer ''peerA'' = Panic ''no remote client for endpoint peerA'' \<and>
   getClient (newServer\<lparr>conn := [(''peerA'', 3)]\<rparr>) ''peerA'' = Some 3 \<and>
   (\<exists>sr'. closeAndRemoveClient (\<lambda>n c. None) (newServer\<lparr>conn := [(''peerA'', 3)]\<rparr>) ''peerA'' = Ok (None, sr') \<and>
      getClient sr' ''peerA'' = None \<and> calls sr' = [(Background, 3, Close)])"
proof -
  have a: "getClient newServer ''peerA'' = None"
    by (simp add: getClient_def newServer_def)
  have b: "getClient (newServer\<lparr>conn := [(''peerA'', 3)]\<rparr>) ''peerA'' = Some 3"
    by (simp add: getClient_def)
  have c: "calls (newServer\<lparr>conn := [(''peerA'', 3)]\<rparr>) = []"
    by (simp add: newServer_def)
  from closeAndRemoveClient_contract [of newServer "''peerA''" "\<lambda>n c. None" 0] a
  have p: "closeAndRemoveClient (\<lambda>n c. None) newServer ''peerA'' = Panic ''no remote client for endpoint peerA''"
    by simp
  from closeAndRemoveClient_contract [of "newServer\<lparr>conn := [(''peerA'', 3)]\<rparr>" "''peerA''" "\<lambda>n c. None" 3] b c
  have q: "\<exists>sr'. closeAndRemoveClient (\<lambda>n c. None) (newServer\<lparr>conn := [(''peerA'', 3)]\<rparr>) ''peerA'' = Ok (None, sr') \<and>
      getClient sr' ''peerA'' = None \<and> calls sr' = [(Background, 3, Close)]"
    by auto
  from a b p q show ?thesis by blast
qed

text \<open>
  C7. When the factory returns an error in a call of \<open>getOrCreateClient\<close> for an
  endpoint without an entry, the call returns that error; the only change to the server
  is the recorded dial: the registry is as before and no watcher has been started, so
  nothing will retry.
\<close>

theorem getOrCreateClient_factory_error:
  "newClient sr = Some new \<Longrightarrow> getClient sr E = None \<Longrightarrow>
   new (length (dials sr)) BgCtx E = Inl e \<Longrightarrow>
     getOrCreateClient sr c E = Ok (Inl e, sr\<lparr>dials := dials sr @ [(BgCtx, E)]\<rparr>) \<and>
     conn (sr\<lparr>dials := dials sr @ [(BgCtx, E)]\<rparr>) = conn sr \<and>
     watchers (sr\<lparr>dials := dials sr @ [(BgCtx, E)]\<rparr>) = watchers sr"
  by (simp add: getOrCreateClient_def getClient_def)

theorem getOrCreateClient_factory_error_witness:
  "getOrCreateClient (newServer\<lparr>newClient := Some dialRefused\<rparr>) Background ''peerA'' =
     Ok (Inl ''connection refused'',
         newServer\<lparr>newClient := Some dialRefused, dials := [(BgCtx, ''peerA'')]\<rparr>) \<and>
   conn (newServer\<lparr>newClient := Some dialRefused, dials := [(BgCtx, ''peerA'')]\<rparr>) = [] \<and>
   watchers (newServer\<lparr>newClient := Some dialRefused, dials := [(BgCtx, ''peerA'')]\<rparr>) = []"
  using getOrCreateClient_factory_error [of "newServer\<lparr>newClient := Some dialRefused\<rparr>" dialRefused
      "''peerA''" "''connection refused''" Background]
  by (simp add: newServer_def getClient_def dialRefused_def)


text \<open>
  C3. With a factory configured: when the registry holds a connection for the endpoint,
  \<open>getOrCreateClient\<close> returns it and leaves the server as it is (no dial); otherwise
  it calls the factory once, and when the factory yields a connection it sets both
  callbacks on it, starts its watcher, stores it under the endpoint (touching no other
  entry) and returns it.
\<close>

theorem getOrCreateClient_returns_or_creates:
  "newClient sr = Some new \<Longrightarrow>
     (getClient sr E = Some cl \<longrightarrow> getOrCreateClient sr c E = Ok (Inr cl, sr)) \<and>
     (getClient sr E = None \<longrightarrow>
        (\<exists>r sr'. getOrCreateClient sr c E = Ok (r, sr') \<and>
                 r = new (length (dials sr)) BgCtx E \<and>
                 dials sr' = dials sr @ [(BgCtx, E)])) \<and>
     (getClient sr E = None \<and> new (length (dials sr)) BgCtx E = Inr cl \<longrightarrow>
        (\<exists>sr'. getOrCreateClient sr c E = Ok (Inr cl, sr') \<and>
           refUpdateCallback sr' = refUpdateCallback sr @ [(cl, E)] \<and>
           refUpdateSymbolicCallback sr' = refUpdateSymbolicCallback sr @ [cl] \<and>
           watchers sr' = watchers sr @ [(cl, E, AwaitDisconnect)] \<and>
           getClient sr' E = Some cl \<and>
           (\<forall>E'. E' \<noteq> E \<longrightarrow> getClient sr' E' = getClient sr E')))"
  by (auto simp: getOrCreateClient_def getClient_def update_conv' split: sum.splits)

theorem getOrCreateClient_returns_or_creates_witness:
  "getOrCreateClient (exampleServer\<lparr>conn := [(''peerA'', 5)]\<rparr>) Background ''peerA'' =
      Ok (Inr 5, exampleServer\<lparr>conn := [(''peerA'', 5)]\<rparr>) \<and>
   (\<exists>sr'. getOrCreateClient exampleServer Background ''peerA'' = Ok (Inr 1, sr') \<and>
      refUpdateCallback sr' = [(1, ''peerA'')] \<and>
      refUpdateSymbolicCallback sr' = [1] \<and>
      watchers sr' = [(1, ''peerA'', AwaitDisconnect)] \<and>
      getClient sr' ''peerA'' = Some 1)"
proof -
  have n: "newClient (exampleServer\<lparr>conn := [(''peerA'', 5)]\<rparr>) = Some dialOk"
          "newClient exampleServer = Some dialOk"
    by (simp_all add: exampleServer_def)
  have a: "getClient (exampleServer\<lparr>conn := [(''peerA'', 5)]\<rparr>) ''peerA'' = Some 5"
    by (simp add: getClient_def)
  have b: "getClient exampleServer ''peerA'' = None \<and>
           dialOk (length (dials exampleServer)) BgCtx ''peerA'' = Inr 1"
    by (simp add: getClient_def exampleServer_def newServer_def dialOk_def)
  have f: "refUpdateCallback exampleServer = []"
          "refUpdateSymbolicCallback exampleServer = []" "watchers exampleServer = []"
    by (simp_all add: exampleServer_def newServer_def)
  note th1 = getOrCreateClient_returns_or_creates [OF n(1), of "''peerA''" 5 Background]
  note th2 = getOrCreateClient_returns_or_creates [OF n(2), of "''peerA''" 1 Background]
  have p: "getOrCreateClient (exampleServer\<lparr>conn := [(''peerA'', 5)]\<rparr>) Background ''peerA'' =
      Ok (Inr 5, exampleServer\<lparr>conn := [(''peerA'', 5)]\<rparr>)"
    by (rule th1 [THEN conjunct1, THEN mp, OF a])
  from th2 [THEN conjunct2, THEN conjunct2, THEN mp, OF b]
  obtain sr' where s: "getOrCreateClient exampleServer Background ''peerA'' = Ok (Inr 1, sr')"
    "refUpdateCallback sr' = refUpdateCallback exampleServer @ [(1, ''peerA'')]"
    "refUpdateSymbolicCallback sr' = refUpdateSymbolicCallback exampleServer @ [1]"
    "watchers sr' = watchers exampleServer @ [(1, ''peerA'', AwaitDisconnect)]"
    "getClient sr' ''peerA'' = Some 1"
    by (elim exE conjE)
  have "getOrCreateClient exampleServer Background ''peerA'' = Ok (Inr 1, sr') \<and>
      refUpdateCallback sr' = [(1, ''peerA'')] \<and>
      refUpdateSymbolicCallback sr' = [1] \<and>
      watchers sr' = [(1, ''peerA'', AwaitDisconnect)] \<and>
      getClient sr' ''peerA'' = Some 1"
    using s f by simp
  with p show ?thesis by blast
qed


section \<open>Properties of re-establishment\<close>

lemma expectedPushes_Nil: "expectedPushes c cl rn remote db [] = {}"
  by (simp add: expectedPushes_def)

lemma expectedPushes_Cons:
  "expectedPushes c cl rn remote db ((refName, refConfig) # rest) =
     (case Lookup db refName of
        Some ob \<Rightarrow> if Overwrite refConfig \<and> Upstream refConfig = rn
                   then insert (pushOf c cl remote refName ob) (expectedPushes c cl rn remote db rest)
                   else expectedPushes c cl rn remote db rest
      | None \<Rightarrow> expectedPushes c cl rn remote db rest)"
  by (auto simp: expectedPushes_def split: option.splits)

lemma pushRefs_calls:
  "pushRefs up c cl rn remote db refs cs = (r, cs') \<Longrightarrow>
     \<exists>new. cs' = cs @ new \<and> set new \<subseteq> expectedPushes c cl rn remote db refs \<and>
           (r = None \<longrightarrow> set new = expectedPushes c cl rn remote db refs)"
proof (induction refs arbitrary: cs)
  case Nil
  then show ?case by (simp add: expectedPushes_Nil)
next
  case (Cons x refs)
  obtain refName refConfig where x: "x = (refName, refConfig)" by (cases x)
  show ?case
  proof (cases "Lookup db refName")
    case None
    with Cons x show ?thesis by (simp add: expectedPushes_Cons)
  next
    case (Some ob)
    show ?thesis
    proof (cases "Overwrite refConfig \<and> Upstream refConfig = rn")
      case False
      with Cons x Some show ?thesis by (auto simp add: expectedPushes_Cons)
    next
      case True
      let ?p = "pushOf c cl remote refName ob"
      show ?thesis
      proof (cases "up (length cs) ?p")
        case (Some e)
        with Cons.prems x \<open>Lookup db refName = Some ob\<close> True
        have "r = Some e" "cs' = cs @ [?p]"
          by (auto simp: issue_def pushOf_def)
        then show ?thesis
          using \<open>Lookup db refName = Some ob\<close> True x
          by (auto simp: expectedPushes_Cons)
      next
        case None
        with Cons.prems x \<open>Lookup db refName = Some ob\<close> True
        have "pushRefs up c cl rn remote db refs (cs @ [?p]) = (r, cs')"
          by (auto simp: issue_def pushOf_def)
        from Cons.IH [OF this] obtain new where
          n: "cs' = (cs @ [?p]) @ new" "set new \<subseteq> expectedPushes c cl rn remote db refs"
             "r = None \<longrightarrow> set new = expectedPushes c cl rn remote db refs"
          by blast
        have "cs' = cs @ (?p # new)" using n(1) by simp
        moreover have "set (?p # new) \<subseteq> expectedPushes c cl rn remote db (x # refs)"
          using n(2) \<open>Lookup db refName = Some ob\<close> True x by (auto simp: expectedPushes_Cons)
        moreover have "r = None \<longrightarrow> set (?p # new) = expectedPushes c cl rn remote db (x # refs)"
          using n(3) \<open>Lookup db refName = Some ob\<close> True x by (auto simp: expectedPushes_Cons)
        ultimately show ?thesis by blast
      qed
    qed
  qed
qed

lemma expectedForRemotes_Nil: "expectedForRemotes c cl E repo [] = {}"
  by (simp add: expectedForRemotes_def)

lemma expectedForRemotes_Cons:
  "expectedForRemotes c cl E repo ((rn, remote) # rest) =
     (if Endpoint remote = E
      then insert (watchOf c cl remote)
             (expectedPushes c cl rn remote (refdb repo) (Refs (config repo)))
           \<union> expectedForRemotes c cl E repo rest
      else expectedForRemotes c cl E repo rest)"
  by (auto simp: expectedForRemotes_def)

lemma watchRemotes_calls:
  "watchRemotes up c cl E repo remotes cs = (r, cs') \<Longrightarrow>
     \<exists>new. cs' = cs @ new \<and> set new \<subseteq> expectedForRemotes c cl E repo remotes \<and>
           (r = None \<longrightarrow> set new = expectedForRemotes c cl E repo remotes)"
proof (induction remotes arbitrary: cs)
  case Nil
  then show ?case by (simp add: expectedForRemotes_Nil)
next
  case (Cons x remotes)
  obtain rn remote where x: "x = (rn, remote)" by (cases x)
  show ?case
  proof (cases "Endpoint remote = E")
    case False
    with Cons x show ?thesis by (simp add: expectedForRemotes_Cons)
  next
    case True
    let ?w = "watchOf c cl remote"
    let ?P = "expectedPushes c cl rn remote (refdb repo) (Refs (config repo))"
    show ?thesis
    proof (cases "up (length cs) ?w")
      case (Some e)
      with Cons.prems x True have "r = Some e" "cs' = cs @ [?w]"
        by (auto simp: issue_def watchOf_def)
      then show ?thesis using x True by (auto simp: expectedForRemotes_Cons)
    next
      case None
      obtain r1 cs1 where p: "pushRefs up c cl rn remote (refdb repo) (Refs (config repo)) (cs @ [?w]) = (r1, cs1)"
        by (cases "pushRefs up c cl rn remote (refdb repo) (Refs (config repo)) (cs @ [?w])")
      from pushRefs_calls [OF p] obtain n1 where
        n1: "cs1 = (cs @ [?w]) @ n1" "set n1 \<subseteq> ?P" "r1 = None \<longrightarrow> set n1 = ?P"
        by blast
      show ?thesis
      proof (cases r1)
        case (Some e)
        with Cons.prems x True None p have "r = Some e" "cs' = cs1"
          by (auto simp: issue_def watchOf_def)
        then have "cs' = cs @ (?w # n1)" using n1(1) by simp
        moreover have "set (?w # n1) \<subseteq> expectedForRemotes c cl E repo (x # remotes)"
          using n1(2) x True by (auto simp: expectedForRemotes_Cons)
        ultimately show ?thesis using \<open>r = Some e\<close> by blast
      next
        case None
        with Cons.prems x True \<open>up (length cs) ?w = None\<close> p
        have "watchRemotes up c cl E repo remotes cs1 = (r, cs')"
          by (auto simp: issue_def watchOf_def)
        from Cons.IH [OF this] obtain n2 where
          n2: "cs' = cs1 @ n2" "set n2 \<subseteq> expectedForRemotes c cl E repo remotes"
              "r = None \<longrightarrow> set n2 = expectedForRemotes c cl E repo remotes"
          by blast
        have "cs' = cs @ (?w # n1 @ n2)" using n1(1) n2(1) by simp
        moreover have "set (?w # n1 @ n2) \<subseteq> expectedForRemotes c cl E repo (x # remotes)"
          using n1(2) n2(2) x True by (auto simp: expectedForRemotes_Cons)
        moreover have "r = None \<longrightarrow> set (?w # n1 @ n2) = expectedForRemotes c cl E repo (x # remotes)"
          using n1(3) n2(3) None x True by (auto simp: expectedForRemotes_Cons)
        ultimately show ?thesis by blast
      qed
    qed
  qed
qed

lemma expectedCalls_Cons:
  "expectedCalls c cl E ((repoName, repo) # rest) =
     expectedForRemotes c cl E repo (Remotes (config repo)) \<union> expectedCalls c cl E rest"
  by (simp add: expectedCalls_def)

lemma reestablishRepos_calls:
  "reestablishRepos up c cl E rs cs = (r, cs') \<Longrightarrow>
     \<exists>new. cs' = cs @ new \<and> set new \<subseteq> expectedCalls c cl E rs \<and>
           (r = None \<longrightarrow> set new = expectedCalls c cl E rs)"
proof (induction rs arbitrary: cs)
  case Nil
  then show ?case by (simp add: expectedCalls_def)
next
  case (Cons x rs)
  obtain repoName repo where x: "x = (repoName, repo)" by (cases x)
  let ?R = "expectedForRemotes c cl E repo (Remotes (config repo))"
  obtain r1 cs1 where p: "watchRemotes up c cl E repo (Remotes (config repo)) cs = (r1, cs1)"
    by (cases "watchRemotes up c cl E repo (Remotes (config repo)) cs")
  from watchRemotes_calls [OF p] obtain n1 where
    n1: "cs1 = cs @ n1" "set n1 \<subseteq> ?R" "r1 = None \<longrightarrow> set n1 = ?R"
    by blast
  show ?case
  proof (cases r1)
    case (Some e)
    with Cons.prems x p have "r = Some e" "cs' = cs1"
      by (auto simp: reestablishRepo_def)
    then show ?thesis using n1 x by (auto simp: expectedCalls_Cons)
  next
    case None
    with Cons.prems x p have "reestablishRepos up c cl E rs cs1 = (r, cs')"
      by (auto simp: reestablishRepo_def)
    from Cons.IH [OF this] obtain n2 where
      n2: "cs' = cs1 @ n2" "set n2 \<subseteq> expectedCalls c cl E rs"
          "r = None \<longrightarrow> set n2 = expectedCalls c cl E rs"
      by blast
    have "cs' = cs @ (n1 @ n2)" using n1(1) n2(1) by simp
    moreover have "set (n1 @ n2) \<subseteq> expectedCalls c cl E (x # rs)"
      using n1(2) n2(2) x by (auto simp: expectedCalls_Cons)
    moreover have "r = None \<longrightarrow> set (n1 @ n2) = expectedCalls c cl E (x # rs)"
      using n1(3) n2(3) None x by (auto simp: expectedCalls_Cons)
    ultimately show ?thesis by blast
  qed
qed

lemma getOrCreateClient_cases:
  "getOrCreateClient sr c E = Ok (r, sr') \<Longrightarrow>
     repos sr' = repos sr \<and> calls sr' = calls sr \<and>
     (case r of Inl e \<Rightarrow> getClient sr E = None \<and> conn sr' = conn sr
              | Inr cl \<Rightarrow> getClient sr' E = Some cl)"
  by (auto simp: getOrCreateClient_def getClient_def update_conv' split: option.splits sum.splits)


lemma untilFirstError_append:
  "untilFirstError up (xs @ ys) cs =
     (case untilFirstError up xs cs of
        (Some e, cs') \<Rightarrow> (Some e, cs')
      | (None, cs') \<Rightarrow> untilFirstError up ys cs')"
  by (induction xs arbitrary: cs) (auto split: option.splits)

lemma pushRefs_untilFirstError:
  "pushRefs up c cl rn remote db refs cs =
     untilFirstError up (expectedPushList c cl rn remote db refs) cs"
proof (induction refs arbitrary: cs)
  case Nil
  then show ?case by (simp add: expectedPushList_def)
next
  case (Cons x refs)
  obtain refName refConfig where x: "x = (refName, refConfig)" by (cases x)
  have e: "expectedPushList c cl rn remote db ((refName, refConfig) # refs) =
     (case Lookup db refName of
          Some ob \<Rightarrow> if Upstream refConfig = rn \<and> Overwrite refConfig
                     then [pushOf c cl remote refName ob] else []
        | None \<Rightarrow> []) @ expectedPushList c cl rn remote db refs"
    by (simp add: expectedPushList_def)
  show ?case
    by (cases "Lookup db refName")
       (auto simp: x e Cons.IH issue_def pushOf_def split: option.splits)
qed

lemma watchRemotes_untilFirstError:
  "watchRemotes up c cl E repo remotes cs =
     untilFirstError up (expectedListForRemotes c cl E repo remotes) cs"
proof (induction remotes arbitrary: cs)
  case Nil
  then show ?case by (simp add: expectedListForRemotes_def)
next
  case (Cons x remotes)
  obtain rn remote where x: "x = (rn, remote)" by (cases x)
  have e: "expectedListForRemotes c cl E repo ((rn, remote) # remotes) =
     (if Endpoint remote = E
        then watchOf c cl remote #
             expectedPushList c cl rn remote (refdb repo) (Refs (config repo))
        else []) @ expectedListForRemotes c cl E repo remotes"
    by (simp add: expectedListForRemotes_def)
  show ?case
  proof (cases "Endpoint remote = E")
    case False
    with Cons.IH show ?thesis by (simp add: x e)
  next
    case True
    then show ?thesis
      by (auto simp: x e Cons.IH issue_def watchOf_def pushRefs_untilFirstError
          untilFirstError_append split: option.splits prod.splits)
  qed
qed

lemma reestablishRepos_untilFirstError:
  "reestablishRepos up c cl E rs cs = untilFirstError up (expectedList c cl E rs) cs"
proof (induction rs arbitrary: cs)
  case Nil
  then show ?case by (simp add: expectedList_def)
next
  case (Cons x rs)
  obtain repoName repo where x: "x = (repoName, repo)" by (cases x)
  have e: "expectedList c cl E ((repoName, repo) # rs) =
     expectedListForRemotes c cl E repo (Remotes (config repo)) @ expectedList c cl E rs"
    by (simp add: expectedList_def)
  show ?case
    by (auto simp: x e Cons.IH reestablishRepo_def watchRemotes_untilFirstError
        untilFirstError_append split: option.splits prod.splits)
qed

lemma untilFirstError_all_ok:
  "\<forall>k<length xs. up (length cs + k) (xs ! k) = None \<Longrightarrow>
     untilFirstError up xs cs = (None, cs @ xs)"
proof (induction xs arbitrary: cs)
  case Nil
  then show ?case by simp
next
  case (Cons x xs)
  from Cons.prems have h: "up (length cs) x = None" by force
  have "\<forall>k<length xs. up (length (cs @ [x]) + k) (xs ! k) = None"
  proof (intro allI impI)
    fix k assume "k < length xs"
    with Cons.prems have "up (length cs + Suc k) ((x # xs) ! Suc k) = None" by force
    then show "up (length (cs @ [x]) + k) (xs ! k) = None" by simp
  qed
  from Cons.IH [OF this] h show ?case by simp
qed

lemma untilFirstError_first_error:
  "k < length xs \<Longrightarrow> up (length cs + k) (xs ! k) = Some e \<Longrightarrow>
   \<forall>j<k. up (length cs + j) (xs ! j) = None \<Longrightarrow>
     untilFirstError up xs cs = (Some e, cs @ take (Suc k) xs)"
proof (induction xs arbitrary: cs k)
  case Nil
  then show ?case by simp
next
  case (Cons x xs)
  show ?case
  proof (cases k)
    case 0
    with Cons.prems show ?thesis by simp
  next
    case (Suc k')
    with Cons.prems have h: "up (length cs) x = None" by force
    from Suc Cons.prems have a: "k' < length xs" "up (length (cs @ [x]) + k') (xs ! k') = Some e"
      by simp_all
    have b: "\<forall>j<k'. up (length (cs @ [x]) + j) (xs ! j) = None"
    proof (intro allI impI)
      fix j assume "j < k'"
      with Suc Cons.prems(3) have "up (length cs + Suc j) ((x # xs) ! Suc j) = None" by force
      then show "up (length (cs @ [x]) + j) (xs ! j) = None" by simp
    qed
    from Cons.IH [OF a b] h Suc show ?thesis by simp
  qed
qed

lemma expectedPushList_Cons:
  "expectedPushList c cl rn remote db ((refName, refConfig) # rest) =
     (case Lookup db refName of
        Some ob \<Rightarrow> if Overwrite refConfig \<and> Upstream refConfig = rn
                   then pushOf c cl remote refName ob # expectedPushList c cl rn remote db rest
                   else expectedPushList c cl rn remote db rest
      | None \<Rightarrow> expectedPushList c cl rn remote db rest)"
  by (auto simp: expectedPushList_def split: option.splits)

lemma set_expectedPushList:
  "set (expectedPushList c cl rn remote db refs) = expectedPushes c cl rn remote db refs"
proof (induction refs)
  case Nil
  show ?case by (simp add: expectedPushList_def expectedPushes_Nil)
next
  case (Cons x refs)
  obtain refName refConfig where x: "x = (refName, refConfig)" by (cases x)
  from Cons.IH show ?case
    by (auto simp: x expectedPushList_Cons expectedPushes_Cons split: option.splits)
qed

lemma set_expectedListForRemotes:
  "set (expectedListForRemotes c cl E repo remotes) = expectedForRemotes c cl E repo remotes"
proof (induction remotes)
  case Nil
  show ?case by (simp add: expectedListForRemotes_def expectedForRemotes_Nil)
next
  case (Cons x remotes)
  obtain rn remote where x: "x = (rn, remote)" by (cases x)
  have "expectedListForRemotes c cl E repo ((rn, remote) # remotes) =
     (if Endpoint remote = E
        then watchOf c cl remote #
             expectedPushList c cl rn remote (refdb repo) (Refs (config repo))
        else []) @ expectedListForRemotes c cl E repo remotes"
    by (simp add: expectedListForRemotes_def)
  with Cons.IH show ?case
    by (auto simp: x expectedForRemotes_Cons set_expectedPushList)
qed

lemma set_expectedList: "set (expectedList c cl E rs) = expectedCalls c cl E rs"
proof (induction rs)
  case Nil
  show ?case by (simp add: expectedList_def expectedCalls_def)
next
  case (Cons x rs)
  obtain repoName repo where x: "x = (repoName, repo)" by (cases x)
  have "expectedList c cl E ((repoName, repo) # rs) =
     expectedListForRemotes c cl E repo (Remotes (config repo)) @ expectedList c cl E rs"
    by (simp add: expectedList_def)
  with Cons.IH show ?case
    by (simp add: x expectedCalls_Cons set_expectedListForRemotes)
qed


lemma count_expectedPushList:
  "filter isWatch (expectedPushList c cl rn remote db refs) = [] \<and>
   length (filter isForcedUpdate (expectedPushList c cl rn remote db refs)) =
     length (filter (\<lambda>(refName, refConfig). Upstream refConfig = rn \<and> Overwrite refConfig \<and>
                Lookup db refName \<noteq> None) refs)"
proof (induction refs)
  case Nil
  show ?case by (simp add: expectedPushList_def)
next
  case (Cons x refs)
  obtain refName refConfig where x: "x = (refName, refConfig)" by (cases x)
  from Cons.IH show ?case
    by (auto simp: x expectedPushList_Cons pushOf_def split: option.splits)
qed

lemma count_expectedListForRemotes:
  "length (filter isWatch (expectedListForRemotes c cl E repo remotes)) =
     length (filter (\<lambda>(rn, remote). Endpoint remote = E) remotes) \<and>
   length (filter isForcedUpdate (expectedListForRemotes c cl E repo remotes)) =
     sum_list (map (\<lambda>(rn, remote). length (overwrittenRefs rn repo))
        (filter (\<lambda>(rn, remote). Endpoint remote = E) remotes))"
proof (induction remotes)
  case Nil
  show ?case by (simp add: expectedListForRemotes_def)
next
  case (Cons x remotes)
  obtain rn remote where x: "x = (rn, remote)" by (cases x)
  have e: "expectedListForRemotes c cl E repo ((rn, remote) # remotes) =
     (if Endpoint remote = E
        then watchOf c cl remote #
             expectedPushList c cl rn remote (refdb repo) (Refs (config repo))
        else []) @ expectedListForRemotes c cl E repo remotes"
    by (simp add: expectedListForRemotes_def)
  from Cons.IH count_expectedPushList [of c cl rn remote "refdb repo" "Refs (config repo)"]
  show ?case
    by (simp add: x e watchOf_def overwrittenRefs_def)
qed

lemma count_expectedList:
  "length (filter isWatch (expectedList c cl E rs)) = watchCount E rs \<and>
   length (filter isForcedUpdate (expectedList c cl E rs)) = pushCount E rs"
proof (induction rs)
  case Nil
  show ?case by (simp add: expectedList_def watchCount_def pushCount_def)
next
  case (Cons x rs)
  obtain repoName repo where x: "x = (repoName, repo)" by (cases x)
  have e: "expectedList c cl E ((repoName, repo) # rs) =
     expectedListForRemotes c cl E repo (Remotes (config repo)) @ expectedList c cl E rs"
    by (simp add: expectedList_def)
  from Cons.IH count_expectedListForRemotes [of c cl E repo "Remotes (config repo)"]
  show ?case
    by (simp add: x e watchCount_def pushCount_def matchingRemotes_def)
qed

lemma watch_or_push:
  "x \<in> expectedCalls c cl E rs \<Longrightarrow> isWatch x \<noteq> isForcedUpdate x"
  by (auto simp: expectedCalls_def expectedForRemotes_def expectedPushes_def watchOf_def pushOf_def)

lemma length_two_filters:
  "\<forall>x\<in>set ys. P x \<noteq> Q x \<Longrightarrow> length ys = length (filter P ys) + length (filter Q ys)"
  by (induction ys) auto

lemma length_expectedList:
  "length (expectedList c cl E rs) = watchCount E rs + pushCount E rs"
proof -
  let ?xs = "expectedList c cl E rs"
  have "\<forall>x\<in>set ?xs. isWatch x \<noteq> isForcedUpdate x"
    by (auto simp: set_expectedList dest: watch_or_push)
  then have "length ?xs = length (filter isWatch ?xs) + length (filter isForcedUpdate ?xs)"
    by (rule length_two_filters)
  with count_expectedList [of c cl E rs] show ?thesis by simp
qed

text \<open>
  C2, as amended. When \<open>getOrCreateClient\<close> gives \<open>tryReconnect\<close> a connection for the
  endpoint, the calls of re-establishment are the expected calls, in order: they are the
  watches and forced updates the specification names (as a set), one watch for every
  remote with the endpoint and one forced update for every overwrite ref of such a
  remote that exists locally. When the peer accepts every one of them, all are made and
  no error is returned. Otherwise the first call that the peer fails is the last call
  made, and its error is returned. Without a connection nothing is called.
\<close>

theorem tryReconnect_reestablishes:
  "(getOrCreateClient sr c E = Ok (Inr cl, sr1) \<longrightarrow>
      set (expectedList c cl E (repos sr)) = expectedCalls c cl E (repos sr) \<and>
      length (filter isWatch (expectedList c cl E (repos sr))) = watchCount E (repos sr) \<and>
      length (filter isForcedUpdate (expectedList c cl E (repos sr))) = pushCount E (repos sr) \<and>
      length (expectedList c cl E (repos sr)) = watchCount E (repos sr) + pushCount E (repos sr) \<and>
      ((\<forall>k<length (expectedList c cl E (repos sr)).
           up (length (calls sr) + k) (expectedList c cl E (repos sr) ! k) = None) \<longrightarrow>
         tryReconnect up c sr E =
           Ok (None, sr1\<lparr>calls := calls sr @ expectedList c cl E (repos sr)\<rparr>)) \<and>
      (\<forall>k e. k < length (expectedList c cl E (repos sr)) \<and>
           up (length (calls sr) + k) (expectedList c cl E (repos sr) ! k) = Some e \<and>
           (\<forall>j<k. up (length (calls sr) + j) (expectedList c cl E (repos sr) ! j) = None) \<longrightarrow>
         tryReconnect up c sr E =
           Ok (Some e, sr1\<lparr>calls := calls sr @ take (Suc k) (expectedList c cl E (repos sr))\<rparr>))) \<and>
   (getOrCreateClient sr c E = Ok (Inl e', sr1) \<longrightarrow> tryReconnect up c sr E = Ok (Some e', sr1)) \<and>
   (getOrCreateClient sr c E = Panic m \<longrightarrow> tryReconnect up c sr E = Panic m)"
proof (intro conjI impI)
  assume g: "getOrCreateClient sr c E = Ok (Inr cl, sr1)"
  let ?xs = "expectedList c cl E (repos sr)"
  from getOrCreateClient_cases [OF g] have k: "repos sr1 = repos sr" "calls sr1 = calls sr"
    by simp_all
  have t: "tryReconnect up c sr E =
     Ok (fst (untilFirstError up ?xs (calls sr)),
         sr1\<lparr>calls := snd (untilFirstError up ?xs (calls sr))\<rparr>)"
    using g k by (simp add: tryReconnect_def reestablishRepos_untilFirstError split: prod.splits)
  show "set ?xs = expectedCalls c cl E (repos sr)" by (rule set_expectedList)
  show "length (filter isWatch ?xs) = watchCount E (repos sr)"
    using count_expectedList [of c cl E "repos sr"] by simp
  show "length (filter isForcedUpdate ?xs) = pushCount E (repos sr)"
    using count_expectedList [of c cl E "repos sr"] by simp
  show "length ?xs = watchCount E (repos sr) + pushCount E (repos sr)"
    by (rule length_expectedList)
  show "tryReconnect up c sr E = Ok (None, sr1\<lparr>calls := calls sr @ ?xs\<rparr>)"
    if "\<forall>k<length ?xs. up (length (calls sr) + k) (?xs ! k) = None"
    using untilFirstError_all_ok [OF that] t by simp
  show "\<forall>k e. k < length ?xs \<and> up (length (calls sr) + k) (?xs ! k) = Some e \<and>
           (\<forall>j<k. up (length (calls sr) + j) (?xs ! j) = None) \<longrightarrow>
         tryReconnect up c sr E = Ok (Some e, sr1\<lparr>calls := calls sr @ take (Suc k) ?xs\<rparr>)"
  proof (intro allI impI)
    fix k e
    assume a: "k < length ?xs \<and> up (length (calls sr) + k) (?xs ! k) = Some e \<and>
           (\<forall>j<k. up (length (calls sr) + j) (?xs ! j) = None)"
    then have "untilFirstError up ?xs (calls sr) = (Some e, calls sr @ take (Suc k) ?xs)"
      by (intro untilFirstError_first_error) simp_all
    with t show "tryReconnect up c sr E = Ok (Some e, sr1\<lparr>calls := calls sr @ take (Suc k) ?xs\<rparr>)"
      by simp
  qed
next
  assume "getOrCreateClient sr c E = Ok (Inl e', sr1)"
  then show "tryReconnect up c sr E = Ok (Some e', sr1)" by (simp add: tryReconnect_def)
next
  assume "getOrCreateClient sr c E = Panic m"
  then show "tryReconnect up c sr E = Panic m" by (simp add: tryReconnect_def)
qed


lemma example_dial:
  "getOrCreateClient exampleServer Background ''peerA'' = Ok (Inr 1, connectedServer)"
  by (simp add: getOrCreateClient_def exampleServer_def newServer_def dialOk_def
      connectedServer_def)

lemma example_expectedList:
  "expectedList Background 1 ''peerA'' (repos exampleServer) =
     [watchOf Background 1 exampleRemote, pushOf Background 1 exampleRemote ''main'' exampleRef]"
  by (simp add: expectedList_def expectedListForRemotes_def expectedPushList_def
      exampleServer_def exampleRepo_def exampleRemote_def Lookup_def)

theorem tryReconnect_reestablishes_witness:
  "getOrCreateClient exampleServer Background ''peerA'' = Ok (Inr 1, connectedServer) \<and>
   expectedList Background 1 ''peerA'' (repos exampleServer) =
     [watchOf Background 1 exampleRemote, pushOf Background 1 exampleRemote ''main'' exampleRef] \<and>
   watchCount ''peerA'' (repos exampleServer) = 1 \<and>
   pushCount ''peerA'' (repos exampleServer) = 1 \<and>
   tryReconnect peerOk Background exampleServer ''peerA'' =
     Ok (None, connectedServer\<lparr>calls :=
        [watchOf Background 1 exampleRemote,
         pushOf Background 1 exampleRemote ''main'' exampleRef]\<rparr>) \<and>
   tryReconnect peerFailsFirst Background exampleServer ''peerA'' =
     Ok (Some ''unavailable'', connectedServer\<lparr>calls := [watchOf Background 1 exampleRemote]\<rparr>)"
proof -
  have c0: "calls exampleServer = []" by (simp add: exampleServer_def newServer_def)
  note a = tryReconnect_reestablishes [where sr = exampleServer and c = Background
      and E = "''peerA''" and cl = 1 and ?sr1.0 = connectedServer and up = peerOk,
      THEN conjunct1, THEN mp, OF example_dial, unfolded example_expectedList c0]
  note b = tryReconnect_reestablishes [where sr = exampleServer and c = Background
      and E = "''peerA''" and cl = 1 and ?sr1.0 = connectedServer and up = peerFailsFirst,
      THEN conjunct1, THEN mp, OF example_dial, unfolded example_expectedList c0]
  from a have w: "watchCount ''peerA'' (repos exampleServer) = 1"
    and p: "pushCount ''peerA'' (repos exampleServer) = 1"
    by (simp_all add: watchOf_def pushOf_def)
  from a have ok: "tryReconnect peerOk Background exampleServer ''peerA'' =
     Ok (None, connectedServer\<lparr>calls :=
        [watchOf Background 1 exampleRemote,
         pushOf Background 1 exampleRemote ''main'' exampleRef]\<rparr>)"
    by (simp add: peerOk_def)
  from b have "0 < length [watchOf Background 1 exampleRemote,
         pushOf Background 1 exampleRemote ''main'' exampleRef] \<and>
       peerFailsFirst (length ([]::call list) + 0) ([watchOf Background 1 exampleRemote,
         pushOf Background 1 exampleRemote ''main'' exampleRef] ! 0) = Some ''unavailable'' \<and>
       (\<forall>j<0. peerFailsFirst (length ([]::call list) + j) ([watchOf Background 1 exampleRemote,
         pushOf Background 1 exampleRemote ''main'' exampleRef] ! j) = None) \<longrightarrow>
     tryReconnect peerFailsFirst Background exampleServer ''peerA'' =
       Ok (Some ''unavailable'', connectedServer\<lparr>calls := [] @ take (Suc 0)
         [watchOf Background 1 exampleRemote,
          pushOf Background 1 exampleRemote ''main'' exampleRef]\<rparr>)"
    by blast
  then have ko: "tryReconnect peerFailsFirst Background exampleServer ''peerA'' =
     Ok (Some ''unavailable'', connectedServer\<lparr>calls := [watchOf Background 1 exampleRemote]\<rparr>)"
    by (simp add: peerFailsFirst_def)
  from example_dial example_expectedList w p ok ko show ?thesis by simp
qed


text \<open>
  C2 as stated fails when a call fails: here the watch fails, the loop returns, and the
  ref \<open>main\<close>, which overwrites from the remote and exists locally, gets no forced update.
\<close>

theorem tryReconnect_failed_watch_counterexample:
  "tryReconnect peerFailsFirst Background exampleServer ''peerA'' =
     Ok (Some ''unavailable'', afterFailedWatch) \<and>
   calls afterFailedWatch = [watchOf Background 1 exampleRemote] \<and>
   map_of (Refs (config exampleRepo)) ''main'' = Some \<lparr>Overwrite = True, Upstream = ''origin''\<rparr> \<and>
   Lookup (refdb exampleRepo) ''main'' = Some exampleRef \<and>
   pushOf Background 1 exampleRemote ''main'' exampleRef \<notin> set (calls afterFailedWatch)"
  by (simp add: tryReconnect_def getOrCreateClient_def exampleServer_def newServer_def
      dialOk_def exampleRepo_def exampleRemote_def reestablishRepo_def issue_def
      peerFailsFirst_def afterFailedWatch_def watchOf_def pushOf_def Lookup_def)

section \<open>Properties of the retry loop\<close>

lemma tryReconnect_dials:
  "tryReconnect up c sr E = Ok (r, sr') \<Longrightarrow>
     newClient sr' = newClient sr \<and> closed sr' = closed sr \<and>
     length (dials sr') \<le> Suc (length (dials sr)) \<and>
     (r = None \<longrightarrow> getClient sr' E \<noteq> None)"
  by (auto simp: tryReconnect_def getOrCreateClient_def getClient_def update_conv'
      split: option.splits sum.splits res.splits prod.splits)

lemma tryReconnect_Panic: "tryReconnect up c sr E = Panic m \<Longrightarrow> newClient sr = None"
  by (auto simp: tryReconnect_def getOrCreateClient_def
      split: option.splits sum.splits res.splits prod.splits)

lemma retryAttempt_remoteBackOff:
  assumes a: "retryAttempt up Background remoteBackOff E cur el sr = res"
  shows "(case res of
        Panic m \<Rightarrow> newClient sr = None
      | Ok (out, sr') \<Rightarrow>
          newClient sr' = newClient sr \<and>
          length (dials sr') \<le> Suc (length (dials sr)) \<and>
          (case out of
             Succeeded \<Rightarrow> getClient sr' E \<noteq> None
           | GaveUp e \<Rightarrow> 60000 < el
           | Sleep d cur' \<Rightarrow> el \<le> 60000 \<and> d = cur \<and> cur' = cur * 2))"
proof (cases "tryReconnect up Background sr E")
  case (Panic m)
  with a tryReconnect_Panic [OF Panic] show ?thesis
    by (auto simp: retryAttempt_def ctxDone_def)
next
  case (Ok p)
  obtain r sr1 where p: "p = (r, sr1)" by (cases p)
  from tryReconnect_dials [of up Background sr E r sr1] Ok p
  have k: "newClient sr1 = newClient sr" "length (dials sr1) \<le> Suc (length (dials sr))"
    "r = None \<longrightarrow> getClient sr1 E \<noteq> None" by auto
  from a Ok p k show ?thesis
    by (cases r) (auto simp: retryAttempt_def ctxDone_def NextBackOff_def remoteBackOff_def)
qed

lemma pow_bound: "500 * (2 ^ k - 1) \<le> (60000::nat) \<Longrightarrow> k \<le> 6"
proof (rule ccontr)
  assume a: "500 * (2 ^ k - 1) \<le> (60000::nat)" and "\<not> k \<le> 6"
  then have "7 \<le> k" by simp
  then have "(2::nat) ^ 7 \<le> 2 ^ k" by (rule power_increasing) simp
  then have "(128::nat) \<le> 2 ^ k" by simp
  with a show False by simp
qed

lemma retry_loop:
  "cur = 500 * 2 ^ k \<Longrightarrow> 500 * (2 ^ k - 1) \<le> elapsed \<Longrightarrow> 8 \<le> k + fuel \<Longrightarrow> 0 < fuel \<Longrightarrow>
     \<exists>res. RetryNotifyWithContext fuel up Background remoteBackOff E dur k cur elapsed sr = Some res \<and>
       (case res of
          Panic m \<Rightarrow> newClient sr = None
        | Ok (e, ds, t, sr') \<Rightarrow>
            ds = map (\<lambda>j. 500 * 2 ^ j) [k..<k + length ds] \<and>
            length ds \<le> 7 - k \<and>
            (e = None \<and> getClient sr' E \<noteq> None \<or> e \<noteq> None \<and> 60000 < t) \<and>
            newClient sr' = newClient sr \<and>
            length (dials sr') \<le> length (dials sr) + Suc (length ds))"
proof (induction fuel arbitrary: k cur elapsed sr)
  case 0
  then show ?case by simp
next
  case (Suc fuel)
  let ?el = "elapsed + dur k"
  obtain res where r: "retryAttempt up Background remoteBackOff E cur ?el sr = res" by simp
  note ch = retryAttempt_remoteBackOff [OF r]
  show ?case
  proof (cases res)
    case (Panic m)
    with r ch show ?thesis by simp
  next
    case (Ok p)
    obtain out sr1 where p: "p = (out, sr1)" by (cases p)
    from ch Ok p have k1: "newClient sr1 = newClient sr"
      "length (dials sr1) \<le> Suc (length (dials sr))" by auto
    show ?thesis
    proof (cases out)
      case Succeeded
      with r ch Ok p show ?thesis by simp
    next
      case (GaveUp e)
      with r ch Ok p show ?thesis by simp
    next
      case (Sleep d cur')
      with ch Ok p have s: "?el \<le> 60000" "d = cur" "cur' = cur * 2" by auto
      from s(1) Suc.prems(2) have "500 * (2 ^ k - 1) \<le> (60000::nat)" by simp
      then have k6: "k \<le> 6" by (rule pow_bound)
      have c': "cur' = 500 * 2 ^ Suc k" using s(3) Suc.prems(1) by simp
      have "(1::nat) \<le> 2 ^ k" by simp
      then have "(2::nat) ^ Suc k - 1 = (2 ^ k - 1) + 2 ^ k" by simp
      then have "(500::nat) * (2 ^ Suc k - 1) = 500 * (2 ^ k - 1) + 500 * 2 ^ k"
        by (simp only: distrib_left)
      then have e': "500 * (2 ^ Suc k - 1) \<le> ?el + d" using Suc.prems(1,2) s(2) by simp
      have f': "8 \<le> Suc k + fuel" "0 < fuel" using Suc.prems(3) k6 by simp_all
      from Suc.IH [OF c' e' f', of sr1] obtain res2 where
        i: "RetryNotifyWithContext fuel up Background remoteBackOff E dur (Suc k) cur' (?el + d) sr1 = Some res2"
        and j: "case res2 of
          Panic m \<Rightarrow> newClient sr1 = None
        | Ok (e, ds, t, sr') \<Rightarrow>
            ds = map (\<lambda>j. 500 * 2 ^ j) [Suc k..<Suc k + length ds] \<and>
            length ds \<le> 7 - Suc k \<and>
            (e = None \<and> getClient sr' E \<noteq> None \<or> e \<noteq> None \<and> 60000 < t) \<and>
            newClient sr' = newClient sr1 \<and>
            length (dials sr') \<le> length (dials sr1) + Suc (length ds)"
        by blast
      show ?thesis
      proof (cases res2)
        case (Panic m)
        with r Ok p Sleep i j k1 show ?thesis by simp
      next
        case (Ok q)
        obtain e ds t sr2 where q: "q = (e, ds, t, sr2)" by (cases q)
        from j Ok q have j': "ds = map (\<lambda>j. 500 * 2 ^ j) [Suc k..<Suc k + length ds]"
          "length ds \<le> 7 - Suc k"
          "e = None \<and> getClient sr2 E \<noteq> None \<or> e \<noteq> None \<and> 60000 < t"
          "newClient sr2 = newClient sr1"
          "length (dials sr2) \<le> length (dials sr1) + Suc (length ds)" by auto
        have "d # ds = map (\<lambda>j. 500 * 2 ^ j) [k..<k + length (d # ds)]"
          using j'(1) s(2) Suc.prems(1) by (simp add: upt_conv_Cons del: upt_Suc)
        moreover have "length (d # ds) \<le> 7 - k" using j'(2) k6 by simp
        moreover have "length (dials sr2) \<le> length (dials sr) + Suc (length (d # ds))"
          using j'(5) k1(2) by simp
        moreover have "RetryNotifyWithContext (Suc fuel) up Background remoteBackOff E dur k cur elapsed sr
            = Some (res.Ok (e, d # ds, t, sr2))"
          using r \<open>res = res.Ok p\<close> p Sleep i Ok q by simp
        ultimately show ?thesis using j'(3,4) k1(1) by simp
      qed
    qed
  qed
qed

lemma sorted_doubling: "sorted (map (\<lambda>j. 500 * 2 ^ j) [k..<m] :: nat list)"
  by (simp add: sorted_map sorted_wrt_iff_nth_less)


lemma watcher_returns:
  assumes f: "8 \<le> fuel" and c: "\<not> closed sr"
  shows "\<exists>res. watcher fuel up dur E sr = Some res \<and>
      (case res of
         Panic m \<Rightarrow> newClient sr = None
       | Ok sr' \<Rightarrow>
           length (dials sr') \<le> length (dials sr) + 8 \<and>
           (getClient sr' E \<noteq> None \<or>
            (\<exists>e. last (logs sr') = (''reconnect-failed-after-retries'', e))))"
proof -
  let ?s = "deleteConn E (logDisconnected sr)"
  have s: "newClient ?s = newClient sr" "dials ?s = dials sr"
    by (simp_all add: deleteConn_def logDisconnected_def)
  from f have "8 \<le> 0 + fuel" "0 < fuel" by simp_all
  from retry_loop [OF _ _ this, of 500 0 up E dur ?s] obtain res where
    r: "RetryNotifyWithContext fuel up Background remoteBackOff E dur 0 500 0 ?s = Some res"
    and k: "case res of
          Panic m \<Rightarrow> newClient ?s = None
        | Ok (e, ds, t, sr') \<Rightarrow>
            ds = map (\<lambda>j. 500 * 2 ^ j) [0..<0 + length ds] \<and>
            length ds \<le> 7 - 0 \<and>
            (e = None \<and> getClient sr' E \<noteq> None \<or> e \<noteq> None \<and> 60000 < t) \<and>
            newClient sr' = newClient ?s \<and>
            length (dials sr') \<le> length (dials ?s) + Suc (length ds)"
    by auto
  have i: "InitialInterval remoteBackOff = 500" by (simp add: remoteBackOff_def)
  show ?thesis
  proof (cases res)
    case (Panic m)
    with r k s c i show ?thesis by (simp add: watcher_def)
  next
    case (Ok q)
    obtain e ds t sr' where q: "q = (e, ds, t, sr')" by (cases q)
    from k Ok q s have k': "length ds \<le> 7"
      "e = None \<and> getClient sr' E \<noteq> None \<or> e \<noteq> None \<and> 60000 < t"
      "length (dials sr') \<le> length (dials sr) + Suc (length ds)" by auto
    show ?thesis
    proof (cases e)
      case None
      with r Ok q c i k' show ?thesis by (simp add: watcher_def)
    next
      case (Some x)
      with r Ok q c i k' show ?thesis by (simp add: watcher_def logReconnectFailed_def)
    qed
  qed
qed

lemma retry_schedule_core:
  assumes f: "8 \<le> fuel"
  shows "InitialInterval remoteBackOff = 500 \<and> Multiplier remoteBackOff = 2 \<and>
    MaxElapsedTime remoteBackOff = 60000 \<and>
    (\<exists>res. RetryNotifyWithContext fuel up Background remoteBackOff E dur 0
              (InitialInterval remoteBackOff) 0 sr = Some res \<and>
       (case res of
          Panic m \<Rightarrow> newClient sr = None
        | Ok (e, ds, t, sr') \<Rightarrow>
            ds = map (\<lambda>j. 500 * 2 ^ j) [0..<length ds] \<and> sorted ds \<and> length ds \<le> 7 \<and>
            (e = None \<and> getClient sr' E \<noteq> None \<or> e \<noteq> None \<and> 60000 < t) \<and>
            length (dials sr') \<le> length (dials sr) + Suc (length ds))) \<and>
    (\<forall>cur el s out s'. retryAttempt up Background remoteBackOff E cur el s = Ok (out, s') \<longrightarrow>
       (case out of
          Succeeded \<Rightarrow> getClient s' E \<noteq> None
        | GaveUp e \<Rightarrow> 60000 < el
        | Sleep d cur' \<Rightarrow> el \<le> 60000 \<and> d = cur \<and> cur' = cur * 2)) \<and>
    (\<not> closed sr \<longrightarrow>
       (\<exists>res. watcher fuel up dur E sr = Some res \<and>
          (case res of
             Panic m \<Rightarrow> newClient sr = None
           | Ok sr' \<Rightarrow>
               length (dials sr') \<le> length (dials sr) + 8 \<and>
               (getClient sr' E \<noteq> None \<or>
                (\<exists>e. last (logs sr') = (''reconnect-failed-after-retries'', e))))))"
proof (intro conjI)
  show "InitialInterval remoteBackOff = 500" "Multiplier remoteBackOff = 2"
    "MaxElapsedTime remoteBackOff = 60000"
    by (simp_all add: remoteBackOff_def)
next
  from f have "8 \<le> 0 + fuel" "0 < fuel" by simp_all
  from retry_loop [OF _ _ this, of 500 0 up E dur sr] obtain res where
    r: "RetryNotifyWithContext fuel up Background remoteBackOff E dur 0 500 0 sr = Some res"
    and k: "case res of
          Panic m \<Rightarrow> newClient sr = None
        | Ok (e, ds, t, sr') \<Rightarrow>
            ds = map (\<lambda>j. 500 * 2 ^ j) [0..<0 + length ds] \<and>
            length ds \<le> 7 - 0 \<and>
            (e = None \<and> getClient sr' E \<noteq> None \<or> e \<noteq> None \<and> 60000 < t) \<and>
            newClient sr' = newClient sr \<and>
            length (dials sr') \<le> length (dials sr) + Suc (length ds)"
    by auto
  have "case res of
          Panic m \<Rightarrow> newClient sr = None
        | Ok (e, ds, t, sr') \<Rightarrow>
            ds = map (\<lambda>j. 500 * 2 ^ j) [0..<length ds] \<and> sorted ds \<and> length ds \<le> 7 \<and>
            (e = None \<and> getClient sr' E \<noteq> None \<or> e \<noteq> None \<and> 60000 < t) \<and>
            length (dials sr') \<le> length (dials sr) + Suc (length ds)"
  proof (cases res)
    case (Panic m)
    with k show ?thesis by simp
  next
    case (Ok q)
    obtain e ds t sr' where q: "q = (e, ds, t, sr')" by (cases q)
    from k Ok q have d: "ds = map (\<lambda>j. 500 * 2 ^ j) [0..<length ds]" by simp
    have "sorted (map (\<lambda>j. 500 * 2 ^ j) [0..<length ds] :: nat list)" by (rule sorted_doubling)
    with d have "sorted ds" by simp
    with k Ok q show ?thesis by simp
  qed
  with r show "\<exists>res. RetryNotifyWithContext fuel up Background remoteBackOff E dur 0
              (InitialInterval remoteBackOff) 0 sr = Some res \<and>
       (case res of
          Panic m \<Rightarrow> newClient sr = None
        | Ok (e, ds, t, sr') \<Rightarrow>
            ds = map (\<lambda>j. 500 * 2 ^ j) [0..<length ds] \<and> sorted ds \<and> length ds \<le> 7 \<and>
            (e = None \<and> getClient sr' E \<noteq> None \<or> e \<noteq> None \<and> 60000 < t) \<and>
            length (dials sr') \<le> length (dials sr) + Suc (length ds))"
    by (simp add: remoteBackOff_def)
next
  show "\<forall>cur el s out s'. retryAttempt up Background remoteBackOff E cur el s = Ok (out, s') \<longrightarrow>
       (case out of
          Succeeded \<Rightarrow> getClient s' E \<noteq> None
        | GaveUp e \<Rightarrow> 60000 < el
        | Sleep d cur' \<Rightarrow> el \<le> 60000 \<and> d = cur \<and> cur' = cur * 2)"
  proof (intro allI impI)
    fix cur el s out s'
    assume "retryAttempt up Background remoteBackOff E cur el s = Ok (out, s')"
    from retryAttempt_remoteBackOff [OF this] show "case out of
          Succeeded \<Rightarrow> getClient s' E \<noteq> None
        | GaveUp e \<Rightarrow> 60000 < el
        | Sleep d cur' \<Rightarrow> el \<le> 60000 \<and> d = cur \<and> cur' = cur * 2"
      by simp
  qed
next
  show "\<not> closed sr \<longrightarrow>
       (\<exists>res. watcher fuel up dur E sr = Some res \<and>
          (case res of
             Panic m \<Rightarrow> newClient sr = None
           | Ok sr' \<Rightarrow>
               length (dials sr') \<le> length (dials sr) + 8 \<and>
               (getClient sr' E \<noteq> None \<or>
                (\<exists>e. last (logs sr') = (''reconnect-failed-after-retries'', e)))))"
    using watcher_returns [OF f] by blast
qed

section \<open>Properties of runs\<close>

lemma getOrCreateClient_distinct:
  "getOrCreateClient sr c E = Ok (r, sr') \<Longrightarrow> distinct (map fst (conn sr)) \<Longrightarrow>
     distinct (map fst (conn sr'))"
  by (auto simp: getOrCreateClient_def distinct_update split: option.splits sum.splits)

lemma closeAndRemoveClient_distinct:
  "closeAndRemoveClient up sr E = Ok (r, sr') \<Longrightarrow> distinct (map fst (conn sr)) \<Longrightarrow>
     distinct (map fst (conn sr'))"
  by (auto simp: closeAndRemoveClient_def issue_def distinct_delete split: option.splits)

lemma conn_setPc [simp]: "conn (setPc i q sr) = conn sr"
  by (simp add: setPc_def)

lemma tryReconnect_distinct:
  "tryReconnect up c sr E = Ok (r, sr') \<Longrightarrow> distinct (map fst (conn sr)) \<Longrightarrow>
     distinct (map fst (conn sr'))"
  by (auto simp: tryReconnect_def split: res.splits prod.splits sum.splits
      dest: getOrCreateClient_distinct)

lemma retryAttempt_distinct:
  "retryAttempt up c p E cur el sr = Ok (out, sr') \<Longrightarrow> distinct (map fst (conn sr)) \<Longrightarrow>
     distinct (map fst (conn sr'))"
  by (auto simp: retryAttempt_def split: if_splits res.splits prod.splits option.splits
      dest: tryReconnect_distinct)

lemma step_distinct:
  assumes "step up a sr = Some sr'" and "distinct (map fst (conn sr))"
  shows "distinct (map fst (conn sr'))"
proof (cases a)
  case (Configure new)
  with assms show ?thesis
    by (auto simp: ConfigureRemoteClientFunc_def split: if_splits)
next
  case (CallGetOrCreateClient E)
  with assms show ?thesis
    by (auto split: res.splits prod.splits dest: getOrCreateClient_distinct)
next
  case (CallCloseAndRemoveClient E)
  with assms show ?thesis
    by (auto split: res.splits prod.splits dest: closeAndRemoveClient_distinct)
next
  case (WatcherSignal i)
  with assms show ?thesis
    by (auto simp: watcherSignal_def logDisconnected_def
        split: option.splits prod.splits pc.splits if_splits)
next
  case (WatcherRemove i)
  with assms show ?thesis
    by (auto simp: watcherRemove_def deleteConn_def distinct_delete
        split: option.splits prod.splits pc.splits)
next
  case (WatcherAttempt i el)
  with assms show ?thesis
    by (auto simp: watcherAttempt_def logReconnectFailed_def
        split: option.splits prod.splits pc.splits res.splits outcome.splits
        dest: retryAttempt_distinct)
qed (use assms in auto)

lemma exec_distinct:
  "exec up as sr = Some sr' \<Longrightarrow> distinct (map fst (conn sr)) \<Longrightarrow> distinct (map fst (conn sr'))"
  by (induction as arbitrary: sr) (auto split: option.splits dest: step_distinct)

lemma distinct_one_entry:
  "distinct (map fst xs) \<Longrightarrow> length (filter (\<lambda>x. fst x = E) xs) \<le> 1"
proof (induction xs)
  case Nil
  then show ?case by simp
next
  case (Cons x xs)
  show ?case
  proof (cases "fst x = E")
    case True
    with Cons.prems have "E \<notin> fst ` set xs" by auto
    then have "filter (\<lambda>x. fst x = E) xs = []" by (auto simp: filter_empty_conv)
    with True show ?thesis by simp
  next
    case False
    with Cons show ?thesis by simp
  qed
qed

text \<open>
  C1. In every run that starts from a server whose registry has at most one entry per
  endpoint (a new server has none), the registry holds at most one entry for every
  endpoint after every action: the calls of the connection manager, the steps of the
  watchers and the retry rounds. \<open>getClient\<close> finds nothing exactly when the endpoint has
  no entry, and finds a connection exactly when it is the entry.
\<close>

theorem registry_one_entry_per_endpoint:
  assumes "distinct (map fst (conn s0))" and "exec up as s0 = Some sr"
  shows "length (filter (\<lambda>x. fst x = E) (conn sr)) \<le> 1 \<and>
         (getClient sr E = None) = (E \<notin> fst ` set (conn sr)) \<and>
         (getClient sr E = Some cl) = ((E, cl) \<in> set (conn sr))"
proof -
  from exec_distinct [OF assms(2,1)] have d: "distinct (map fst (conn sr))" .
  from d have "length (filter (\<lambda>x. fst x = E) (conn sr)) \<le> 1" by (rule distinct_one_entry)
  moreover have "(getClient sr E = None) = (E \<notin> fst ` set (conn sr))"
    by (simp add: getClient_def map_of_eq_None_iff)
  moreover from d have "(getClient sr E = Some cl) = ((E, cl) \<in> set (conn sr))"
    by (simp add: getClient_def)
  ultimately show ?thesis by simp
qed


lemmas run_defs = ConfigureRemoteClientFunc_def getOrCreateClient_def closeAndRemoveClient_def
  issue_def tryReconnect_def reestablishRepo_def retryAttempt_def ctxDone_def NextBackOff_def
  remoteBackOff_def watcherSignal_def watcherRemove_def watcherAttempt_def watcherAt_def
  setPc_def logDisconnected_def deleteConn_def logReconnectFailed_def Lookup_def getClient_def
  newServer_def exampleServer_def exampleRepo_def exampleRemote_def exampleRef_def
  dialOk_def peerOk_def connectedServer_def

lemma exampleRun_result: "exec peerOk exampleRun newServer = Some afterExampleRun"
  by (simp add: exampleRun_def afterExampleRun_def run_defs)

theorem registry_one_entry_per_endpoint_witness:
  "distinct (map fst (conn newServer)) \<and>
   exec peerOk exampleRun newServer = Some afterExampleRun \<and>
   conn afterExampleRun = [(''peerB'', 2), (''peerA'', 3)] \<and>
   length (filter (\<lambda>x. fst x = ''peerA'') (conn afterExampleRun)) \<le> 1 \<and>
   getClient afterExampleRun ''peerA'' = Some 3 \<and>
   getClient afterExampleRun ''peerC'' = None"
proof -
  have d: "distinct (map fst (conn newServer))" by (simp add: newServer_def)
  have c: "conn afterExampleRun = [(''peerB'', 2), (''peerA'', 3)]"
    by (simp add: afterExampleRun_def)
  from registry_one_entry_per_endpoint [OF d exampleRun_result, of "''peerA''" 3]
       registry_one_entry_per_endpoint [OF d exampleRun_result, of "''peerC''" 0] c
  have "length (filter (\<lambda>x. fst x = ''peerA'') (conn afterExampleRun)) \<le> 1 \<and>
   getClient afterExampleRun ''peerA'' = Some 3 \<and>
   getClient afterExampleRun ''peerC'' = None"
    by simp
  with d exampleRun_result c show ?thesis by simp
qed


lemma dials_setPc [simp]: "dials (setPc i q sr) = dials sr"
  by (simp add: setPc_def)

lemma calls_setPc [simp]: "calls (setPc i q sr) = calls sr"
  by (simp add: setPc_def)

lemma logs_setPc [simp]: "logs (setPc i q sr) = logs sr"
  by (simp add: setPc_def)

lemma closed_setPc [simp]: "closed (setPc i q sr) = closed sr"
  by (simp add: setPc_def)

lemma newClient_setPc [simp]: "newClient (setPc i q sr) = newClient sr"
  by (simp add: setPc_def)

lemma getClient_setPc [simp]: "getClient (setPc i q sr) E = getClient sr E"
  by (simp add: getClient_def)

lemma watcherAt_setPc_same:
  "watcherAt sr i = Some (cl, E, q0) \<Longrightarrow> watcherAt (setPc i q sr) i = Some (cl, E, q)"
  by (auto simp: watcherAt_def setPc_def split: if_splits)

lemma watcherAt_setPc_other:
  "j \<noteq> i \<Longrightarrow> watcherAt (setPc j q sr) i = watcherAt sr i"
  by (auto simp: watcherAt_def setPc_def)

lemma getClient_delete_None:
  "getClient sr E = None \<Longrightarrow> getClient (deleteConn E' sr) E = None"
  by (simp add: getClient_def deleteConn_def delete_conv')

lemma getClient_deleteConn [simp]: "getClient (deleteConn E sr) E = None"
  by (simp add: getClient_def deleteConn_def delete_conv')

lemma dials_deleteConn [simp]: "dials (deleteConn E sr) = dials sr"
  by (simp add: deleteConn_def)

lemma step_no_dial:
  assumes "step up a sr = Some sr'" and "\<not> dialling a"
  shows "dials sr' = dials sr \<and> (getClient sr E = None \<longrightarrow> getClient sr' E = None)"
proof (cases a)
  case (Configure new)
  with assms show ?thesis
    by (auto simp: ConfigureRemoteClientFunc_def getClient_def split: if_splits)
next
  case (CallCloseAndRemoveClient E')
  with assms show ?thesis
    by (auto simp: closeAndRemoveClient_def issue_def getClient_def delete_conv'
        split: option.splits)
next
  case (WatcherSignal i)
  with assms show ?thesis
    by (auto simp: watcherSignal_def logDisconnected_def getClient_def
        split: option.splits prod.splits pc.splits if_splits)
next
  case (WatcherRemove i)
  with assms show ?thesis
    by (auto simp: watcherRemove_def getClient_delete_None
        split: option.splits prod.splits pc.splits)
qed (use assms in \<open>auto simp: getClient_def\<close>)

lemma exec_no_dial:
  "exec up as sr = Some sr' \<Longrightarrow> \<forall>a\<in>set as. \<not> dialling a \<Longrightarrow> getClient sr E = None \<Longrightarrow>
     dials sr' = dials sr \<and> getClient sr' E = None"
proof (induction as arbitrary: sr)
  case Nil
  then show ?case by simp
next
  case (Cons a as)
  from Cons.prems(1) obtain s1 where s: "step up a sr = Some s1" "exec up as s1 = Some sr'"
    by (auto split: option.splits)
  from step_no_dial [OF s(1), of E] Cons.prems(2,3)
  have "dials s1 = dials sr" "getClient s1 E = None" by auto
  with Cons.IH [OF s(2)] Cons.prems(2) show ?case by simp
qed


lemma watcherAttempt_first_dial:
  assumes w: "watcherAt sr i = Some (cl, E, Retrying cur)"
    and n: "newClient sr = Some new" and g: "getClient sr E = None"
  shows "\<exists>s'. watcherAttempt up i el sr = Some s' \<and> dials s' = dials sr @ [(BgCtx, E)]"
proof -
  obtain r where r: "new (length (dials sr)) BgCtx E = r" by simp
  show ?thesis
  proof (cases r)
    case (Inl e)
    with r n g have "tryReconnect up Background sr E = Ok (Some e, sr\<lparr>dials := dials sr @ [(BgCtx, E)]\<rparr>)"
      by (simp add: tryReconnect_def getOrCreateClient_def getClient_def)
    with w show ?thesis
      by (auto simp: watcherAttempt_def retryAttempt_def ctxDone_def NextBackOff_def
          logReconnectFailed_def)
  next
    case (Inr c2)
    let ?s1 = "sr\<lparr>dials := dials sr @ [(BgCtx, E)],
                    logs := logs sr @ [(''connected-to-remote'', E)],
                    watchers := watchers sr @ [(c2, E, AwaitDisconnect)],
                    refUpdateCallback := refUpdateCallback sr @ [(c2, E)],
                    refUpdateSymbolicCallback := refUpdateSymbolicCallback sr @ [c2],
                    conn := AList.update E c2 (conn sr)\<rparr>"
    from Inr r n g have a: "getOrCreateClient sr Background E = Ok (Inr c2, ?s1)"
      by (simp add: getOrCreateClient_def getClient_def)
    obtain e cs where b: "reestablishRepos up Background c2 E (repos ?s1) (calls ?s1) = (e, cs)"
      by (cases "reestablishRepos up Background c2 E (repos ?s1) (calls ?s1)")
    from a b have t: "tryReconnect up Background sr E = Ok (e, ?s1\<lparr>calls := cs\<rparr>)"
      by (simp add: tryReconnect_def)
    with w show ?thesis
      by (cases e) (auto simp: watcherAttempt_def retryAttempt_def ctxDone_def NextBackOff_def
          logReconnectFailed_def)
  qed
qed

lemma watcher_signal_then_remove:
  assumes w: "watcherAt sr i = Some (cl, E, AwaitDisconnect)" and c: "\<not> closed sr"
  defines "s1 \<equiv> setPc i AwaitRemove (logDisconnected sr)"
  defines "s2 \<equiv> setPc i (Retrying (InitialInterval remoteBackOff)) (deleteConn E s1)"
  shows "step up (WatcherSignal i) sr = Some s1"
    and "step up (WatcherRemove i) s1 = Some s2"
    and "watcherAt s1 i = Some (cl, E, AwaitRemove)"
    and "watcherAt s2 i = Some (cl, E, Retrying (InitialInterval remoteBackOff))"
    and "getClient s1 E = getClient sr E" and "getClient s2 E = None"
    and "dials s1 = dials sr" and "dials s2 = dials sr"
    and "newClient s2 = newClient sr"
proof -
  have w0: "watcherAt (logDisconnected sr) i = Some (cl, E, AwaitDisconnect)"
    using w by (auto simp: watcherAt_def logDisconnected_def split: if_splits)
  show w1: "watcherAt s1 i = Some (cl, E, AwaitRemove)"
    unfolding s1_def by (rule watcherAt_setPc_same [OF w0])
  then have w1': "watcherAt (deleteConn E s1) i = Some (cl, E, AwaitRemove)"
    by (auto simp: watcherAt_def deleteConn_def split: if_splits)
  show "watcherAt s2 i = Some (cl, E, Retrying (InitialInterval remoteBackOff))"
    unfolding s2_def by (rule watcherAt_setPc_same [OF w1'])
  show "step up (WatcherSignal i) sr = Some s1"
    using w c by (simp add: watcherSignal_def s1_def)
  show "step up (WatcherRemove i) s1 = Some s2"
    using w1 by (simp add: watcherRemove_def s2_def)
  show "getClient s1 E = getClient sr E"
    by (simp add: s1_def getClient_def logDisconnected_def)
  show "getClient s2 E = None" by (simp add: s2_def)
  show "dials s1 = dials sr" "dials s2 = dials sr"
    by (simp_all add: s1_def s2_def logDisconnected_def)
  show "newClient s2 = newClient sr"
    by (simp add: s1_def s2_def deleteConn_def logDisconnected_def)
qed

text \<open>
  C4. When a watcher sees the disconnect signal and the server is not closed, its next
  step deletes the entry of its endpoint; no retry round of this watcher can run before
  that step (until then a lookup still finds the old entry). After the step a lookup of
  the endpoint finds nothing and no dial has been made; this stays so through any
  further actions until some goroutine dials. The watcher's first retry round then dials.
\<close>

theorem watcher_removes_entry_before_dialling:
  assumes w: "watcherAt sr i = Some (cl, E, AwaitDisconnect)" and c: "\<not> closed sr"
  shows "\<exists>s1 s2.
     step up (WatcherSignal i) sr = Some s1 \<and> step up (WatcherRemove i) s1 = Some s2 \<and>
     step up (WatcherAttempt i el) sr = None \<and> step up (WatcherAttempt i el) s1 = None \<and>
     getClient s1 E = getClient sr E \<and>
     dials s2 = dials sr \<and> getClient s2 E = None \<and>
     watcherAt s2 i = Some (cl, E, Retrying (InitialInterval remoteBackOff)) \<and>
     (\<forall>as s3. exec up as s2 = Some s3 \<and> (\<forall>a\<in>set as. \<not> dialling a) \<longrightarrow>
        getClient s3 E = None \<and> dials s3 = dials sr) \<and>
     (\<forall>new. newClient sr = Some new \<longrightarrow>
        (\<exists>s3. step up (WatcherAttempt i el) s2 = Some s3 \<and> dials s3 = dials sr @ [(BgCtx, E)]))"
proof -
  let ?s1 = "setPc i AwaitRemove (logDisconnected sr)"
  let ?s2 = "setPc i (Retrying (InitialInterval remoteBackOff)) (deleteConn E ?s1)"
  note k = watcher_signal_then_remove [OF w c]
  have n1: "step up (WatcherAttempt i el) sr = None"
    using w by (simp add: watcherAttempt_def)
  have n2: "step up (WatcherAttempt i el) ?s1 = None"
    using k(3) by (simp add: watcherAttempt_def)
  have i: "\<forall>as s3. exec up as ?s2 = Some s3 \<and> (\<forall>a\<in>set as. \<not> dialling a) \<longrightarrow>
        getClient s3 E = None \<and> dials s3 = dials sr"
    using exec_no_dial [of up _ ?s2 _ E] k(6) k(8) by auto
  have j: "\<forall>new. newClient sr = Some new \<longrightarrow>
        (\<exists>s3. step up (WatcherAttempt i el) ?s2 = Some s3 \<and> dials s3 = dials sr @ [(BgCtx, E)])"
  proof (intro allI impI)
    fix new assume "newClient sr = Some new"
    with k(9) have "newClient ?s2 = Some new" by simp
    from watcherAttempt_first_dial [OF k(4) this k(6), of up el] k(8)
    show "\<exists>s3. step up (WatcherAttempt i el) ?s2 = Some s3 \<and> dials s3 = dials sr @ [(BgCtx, E)]"
      by simp
  qed
  from k(1,2,5,6,8,4) n1 n2 i j show ?thesis by blast
qed

lemma connectedServer_watcher:
  "watcherAt connectedServer 0 = Some (1, ''peerA'', AwaitDisconnect)"
  by (simp add: watcherAt_def connectedServer_def)

theorem watcher_removes_entry_before_dialling_witness:
  "watcherAt connectedServer 0 = Some (1, ''peerA'', AwaitDisconnect) \<and>
   \<not> closed connectedServer \<and> getClient connectedServer ''peerA'' = Some 1 \<and>
   (\<exists>s1 s2. step peerOk (WatcherSignal 0) connectedServer = Some s1 \<and>
      step peerOk (WatcherRemove 0) s1 = Some s2 \<and>
      step peerOk (WatcherAttempt 0 0) s1 = None \<and>
      getClient s2 ''peerA'' = None \<and> dials s2 = [(BgCtx, ''peerA'')] \<and>
      (\<exists>s3. step peerOk (WatcherAttempt 0 0) s2 = Some s3 \<and>
         dials s3 = [(BgCtx, ''peerA''), (BgCtx, ''peerA'')]))"
proof -
  have c: "\<not> closed connectedServer"
    by (simp add: connectedServer_def exampleServer_def newServer_def)
  have g: "getClient connectedServer ''peerA'' = Some 1"
    by (simp add: getClient_def connectedServer_def)
  have n: "newClient connectedServer = Some dialOk"
    by (simp add: connectedServer_def exampleServer_def)
  have d: "dials connectedServer = [(BgCtx, ''peerA'')]"
    by (simp add: connectedServer_def)
  from watcher_removes_entry_before_dialling [OF connectedServer_watcher c, of peerOk 0]
  obtain s1 s2 where s:
     "step peerOk (WatcherSignal 0) connectedServer = Some s1"
     "step peerOk (WatcherRemove 0) s1 = Some s2"
     "step peerOk (WatcherAttempt 0 0) s1 = None"
     "dials s2 = dials connectedServer" "getClient s2 ''peerA'' = None"
     "\<forall>new. newClient connectedServer = Some new \<longrightarrow>
        (\<exists>s3. step peerOk (WatcherAttempt 0 0) s2 = Some s3 \<and>
              dials s3 = dials connectedServer @ [(BgCtx, ''peerA'')])"
    by blast
  from s(6) n have "\<exists>s3. step peerOk (WatcherAttempt 0 0) s2 = Some s3 \<and>
              dials s3 = dials connectedServer @ [(BgCtx, ''peerA'')]" by blast
  with d have "\<exists>s3. step peerOk (WatcherAttempt 0 0) s2 = Some s3 \<and>
         dials s3 = [(BgCtx, ''peerA''), (BgCtx, ''peerA'')]" by simp
  with s(1-5) d connectedServer_watcher c g show ?thesis by auto
qed


lemma expectedCalls_ctx: "x \<in> expectedCalls c cl E rs \<Longrightarrow> fst x = c"
  by (auto simp: expectedCalls_def expectedForRemotes_def expectedPushes_def watchOf_def pushOf_def)

lemma tryReconnect_calls_ctx:
  assumes "tryReconnect up c sr E = Ok (r, sr')"
  shows "\<exists>nc. calls sr' = calls sr @ nc \<and> (\<forall>x\<in>set nc. fst x = c)"
proof (cases "getOrCreateClient sr c E")
  case (Panic m)
  with assms show ?thesis by (simp add: tryReconnect_def)
next
  case (Ok p)
  obtain g sr1 where p: "p = (g, sr1)" by (cases p)
  from getOrCreateClient_cases [of sr c E g sr1] Ok p
  have k: "calls sr1 = calls sr" by simp
  show ?thesis
  proof (cases g)
    case (Inl e)
    with assms Ok p k show ?thesis by (simp add: tryReconnect_def)
  next
    case (Inr cl1)
    obtain r1 cs1 where q: "reestablishRepos up c cl1 E (repos sr1) (calls sr1) = (r1, cs1)"
      by (cases "reestablishRepos up c cl1 E (repos sr1) (calls sr1)")
    with assms Ok p Inr have e: "sr' = sr1\<lparr>calls := cs1\<rparr>"
      by (auto simp: tryReconnect_def)
    from reestablishRepos_calls [OF q] obtain new where
      "cs1 = calls sr1 @ new" "set new \<subseteq> expectedCalls c cl1 E (repos sr1)" by blast
    with e k show ?thesis by (auto dest: expectedCalls_ctx)
  qed
qed

lemma watcherAttempt_calls_ctx:
  assumes "watcherAttempt up i el sr = Some sr'"
  shows "\<exists>nc. calls sr' = calls sr @ nc \<and> (\<forall>x\<in>set nc. fst x = Background)"
proof -
  from assms obtain cl E cur where w: "watcherAt sr i = Some (cl, E, Retrying cur)"
    by (auto simp: watcherAttempt_def split: option.splits prod.splits pc.splits)
  show ?thesis
  proof (cases "tryReconnect up Background sr E")
    case (Panic m)
    with assms w show ?thesis
      by (simp add: watcherAttempt_def retryAttempt_def ctxDone_def)
  next
    case (Ok p)
    obtain r s1 where p: "p = (r, s1)" by (cases p)
    from tryReconnect_calls_ctx [of up Background sr E r s1] Ok p obtain nc where
      nc: "calls s1 = calls sr @ nc" "\<forall>x\<in>set nc. fst x = Background" by auto
    from assms w Ok p have "calls sr' = calls s1"
      by (cases r) (auto simp: watcherAttempt_def retryAttempt_def ctxDone_def NextBackOff_def
          logReconnectFailed_def split: if_splits)
    with nc show ?thesis by auto
  qed
qed

text \<open>
  C5, as amended. A watcher that sees the disconnect signal while the server is closed
  returns: the registry, the dials, the calls and the log are as before, and no further
  step of this watcher exists. The \<open>closed\<close> flag is read only there. A watcher that is
  past the check deletes the entry and runs its retry rounds whatever the flag and the
  server's background context are by then: the loop's context is
  \<open>context.Background()\<close>, which is never done, the calls of re-establishment are made
  with it, and only the dial is handed the server's background context.
\<close>

theorem watcher_exits_when_closed:
  assumes w: "watcherAt sr i = Some (cl, E, AwaitDisconnect)" and c: "closed sr"
  shows "step up (WatcherSignal i) sr = Some (setPc i Exited sr) \<and>
     conn (setPc i Exited sr) = conn sr \<and> dials (setPc i Exited sr) = dials sr \<and>
     calls (setPc i Exited sr) = calls sr \<and> logs (setPc i Exited sr) = logs sr \<and>
     watcherAt (setPc i Exited sr) i = Some (cl, E, Exited) \<and>
     step up (WatcherSignal i) (setPc i Exited sr) = None \<and>
     step up (WatcherRemove i) (setPc i Exited sr) = None \<and>
     step up (WatcherAttempt i el) (setPc i Exited sr) = None \<and>
     (\<forall>s. \<not> ctxDone s Background) \<and>
     (\<forall>s. watcherAt s i = Some (cl, E, AwaitRemove) \<longrightarrow>
        (\<exists>s'. step up (WatcherRemove i) s = Some s' \<and> getClient s' E = None \<and>
              watcherAt s' i = Some (cl, E, Retrying (InitialInterval remoteBackOff)))) \<and>
     (\<forall>s cur new. watcherAt s i = Some (cl, E, Retrying cur) \<and> newClient s = Some new \<and>
          getClient s E = None \<longrightarrow>
        (\<exists>s'. step up (WatcherAttempt i el) s = Some s' \<and> dials s' = dials s @ [(BgCtx, E)])) \<and>
     (\<forall>s s'. step up (WatcherAttempt i el) s = Some s' \<longrightarrow>
        (\<exists>nc. calls s' = calls s @ nc \<and> (\<forall>x\<in>set nc. fst x = Background)))"
proof -
  let ?s = "setPc i Exited sr"
  have e: "watcherAt ?s i = Some (cl, E, Exited)" by (rule watcherAt_setPc_same [OF w])
  have 1: "step up (WatcherSignal i) sr = Some ?s" using w c by (simp add: watcherSignal_def)
  have 2: "step up (WatcherSignal i) ?s = None" using e by (simp add: watcherSignal_def)
  have 3: "step up (WatcherRemove i) ?s = None" using e by (simp add: watcherRemove_def)
  have 4: "step up (WatcherAttempt i el) ?s = None" using e by (simp add: watcherAttempt_def)
  have 5: "\<forall>s. \<not> ctxDone s Background" by (simp add: ctxDone_def)
  have 6: "\<forall>s. watcherAt s i = Some (cl, E, AwaitRemove) \<longrightarrow>
        (\<exists>s'. step up (WatcherRemove i) s = Some s' \<and> getClient s' E = None \<and>
              watcherAt s' i = Some (cl, E, Retrying (InitialInterval remoteBackOff)))"
  proof (intro allI impI)
    fix s assume a: "watcherAt s i = Some (cl, E, AwaitRemove)"
    then have "watcherAt (deleteConn E s) i = Some (cl, E, AwaitRemove)"
      by (auto simp: watcherAt_def deleteConn_def split: if_splits)
    from watcherAt_setPc_same [OF this] a
    show "\<exists>s'. step up (WatcherRemove i) s = Some s' \<and> getClient s' E = None \<and>
              watcherAt s' i = Some (cl, E, Retrying (InitialInterval remoteBackOff))"
      by (simp add: watcherRemove_def)
  qed
  have 7: "\<forall>s cur new. watcherAt s i = Some (cl, E, Retrying cur) \<and> newClient s = Some new \<and>
          getClient s E = None \<longrightarrow>
        (\<exists>s'. step up (WatcherAttempt i el) s = Some s' \<and> dials s' = dials s @ [(BgCtx, E)])"
    using watcherAttempt_first_dial [of _ i cl E _ _ up el] by auto
  have 8: "\<forall>s s'. step up (WatcherAttempt i el) s = Some s' \<longrightarrow>
        (\<exists>nc. calls s' = calls s @ nc \<and> (\<forall>x\<in>set nc. fst x = Background))"
    using watcherAttempt_calls_ctx [of up i el] by auto
  from 1 2 3 4 5 6 7 8 e show ?thesis by simp
qed


theorem watcher_exits_when_closed_witness:
  "watcherAt (connectedServer\<lparr>closed := True\<rparr>) 0 = Some (1, ''peerA'', AwaitDisconnect) \<and>
   closed (connectedServer\<lparr>closed := True\<rparr>) \<and>
   step peerOk (WatcherSignal 0) (connectedServer\<lparr>closed := True\<rparr>) =
     Some (setPc 0 Exited (connectedServer\<lparr>closed := True\<rparr>)) \<and>
   conn (setPc 0 Exited (connectedServer\<lparr>closed := True\<rparr>)) = [(''peerA'', 1)] \<and>
   dials (setPc 0 Exited (connectedServer\<lparr>closed := True\<rparr>)) = [(BgCtx, ''peerA'')] \<and>
   step peerOk (WatcherRemove 0) (setPc 0 Exited (connectedServer\<lparr>closed := True\<rparr>)) = None \<and>
   step peerOk (WatcherAttempt 0 0) (setPc 0 Exited (connectedServer\<lparr>closed := True\<rparr>)) = None"
proof -
  have w: "watcherAt (connectedServer\<lparr>closed := True\<rparr>) 0 = Some (1, ''peerA'', AwaitDisconnect)"
    by (simp add: watcherAt_def connectedServer_def)
  have c: "closed (connectedServer\<lparr>closed := True\<rparr>)" by simp
  have f: "conn (connectedServer\<lparr>closed := True\<rparr>) = [(''peerA'', 1)]"
          "dials (connectedServer\<lparr>closed := True\<rparr>) = [(BgCtx, ''peerA'')]"
    by (simp_all add: connectedServer_def)
  from watcher_exits_when_closed [OF w c, of peerOk 0] w c f show ?thesis by simp
qed

text \<open>
  C5 as stated fails when the server is closed, and its background context cancelled,
  between a watcher's check and its retry loop: the loop starts all the same, dials and
  makes the calls of re-establishment with the background context.
\<close>

theorem shutdown_after_check_counterexample:
  "map_option closed (exec peerOk [WatcherSignal 0, ServerClose, CancelBgCtx] connectedServer) = Some True \<and>
   map_option bgCtxDone (exec peerOk [WatcherSignal 0, ServerClose, CancelBgCtx] connectedServer) = Some True \<and>
   map_option dials (exec peerOk [WatcherSignal 0, ServerClose, CancelBgCtx] connectedServer) =
     Some [(BgCtx, ''peerA'')] \<and>
   map_option calls (exec peerOk [WatcherSignal 0, ServerClose, CancelBgCtx] connectedServer) = Some [] \<and>
   map_option dials (exec peerOk [WatcherSignal 0, ServerClose, CancelBgCtx,
       WatcherRemove 0, WatcherAttempt 0 0] connectedServer) =
     Some [(BgCtx, ''peerA''), (BgCtx, ''peerA'')] \<and>
   map_option calls (exec peerOk [WatcherSignal 0, ServerClose, CancelBgCtx,
       WatcherRemove 0, WatcherAttempt 0 0] connectedServer) =
     Some [watchOf Background 2 exampleRemote, pushOf Background 2 exampleRemote ''main'' exampleRef]"
  by (simp add: run_defs watchOf_def pushOf_def)


lemma getOrCreateClient_watchers:
  "getOrCreateClient sr c E = Ok (r, sr') \<Longrightarrow> \<exists>ws. watchers sr' = watchers sr @ ws"
  by (auto simp: getOrCreateClient_def split: option.splits sum.splits)

lemma tryReconnect_watchers:
  "tryReconnect up c sr E = Ok (r, sr') \<Longrightarrow> \<exists>ws. watchers sr' = watchers sr @ ws"
  by (auto simp: tryReconnect_def split: res.splits prod.splits sum.splits
      dest: getOrCreateClient_watchers)

lemma retryAttempt_watchers:
  "retryAttempt up c p E cur el sr = Ok (out, sr') \<Longrightarrow> \<exists>ws. watchers sr' = watchers sr @ ws"
  by (auto simp: retryAttempt_def split: if_splits res.splits prod.splits option.splits
      dest: tryReconnect_watchers)

lemma watcherAt_append:
  "watcherAt sr i = Some x \<Longrightarrow> watchers sr' = watchers sr @ ws \<Longrightarrow> watcherAt sr' i = Some x"
  by (auto simp: watcherAt_def nth_append split: if_splits)

lemma watcherAt_cong: "watchers sr' = watchers sr \<Longrightarrow> watcherAt sr' i = watcherAt sr i"
  by (simp add: watcherAt_def)


lemma watcherSignal_other:
  assumes "watcherSignal j sr = Some sr'" and "j \<noteq> i"
  shows "watcherAt sr' i = watcherAt sr i"
proof -
  have l: "watcherAt (logDisconnected sr) i = watcherAt sr i"
    by (rule watcherAt_cong) (simp add: logDisconnected_def)
  from assms(1) have "sr' = setPc j Exited sr \<or> sr' = setPc j AwaitRemove (logDisconnected sr)"
    by (simp add: watcherSignal_def split: option.splits prod.splits pc.splits if_splits)
  with l assms(2) show ?thesis by (auto simp: watcherAt_setPc_other)
qed

lemma watcherRemove_other:
  assumes "watcherRemove j sr = Some sr'" and "j \<noteq> i"
  shows "watcherAt sr' i = watcherAt sr i"
proof -
  have d: "watcherAt (deleteConn E' sr) i = watcherAt sr i" for E'
    by (rule watcherAt_cong) (simp add: deleteConn_def)
  from assms(1) have "\<exists>E' q. sr' = setPc j q (deleteConn E' sr)"
    by (simp add: watcherRemove_def split: option.splits prod.splits pc.splits) blast
  with d assms(2) show ?thesis by (auto simp: watcherAt_setPc_other)
qed

lemma watcherAttempt_other:
  assumes a: "watcherAttempt up j el sr = Some sr'" and ji: "j \<noteq> i"
    and w: "watcherAt sr i = Some x"
  shows "watcherAt sr' i = Some x"
proof -
  from a obtain c2 E2 cur where wj: "watcherAt sr j = Some (c2, E2, Retrying cur)"
    by (auto simp: watcherAttempt_def split: option.splits prod.splits pc.splits)
  show ?thesis
  proof (cases "retryAttempt up Background remoteBackOff E2 cur el sr")
    case (Panic m)
    with a wj show ?thesis by (simp add: watcherAttempt_def)
  next
    case (Ok p)
    obtain out s1 where p: "p = (out, s1)" by (cases p)
    from retryAttempt_watchers [of up Background remoteBackOff E2 cur el sr out s1] Ok p w
    have w1: "watcherAt s1 i = Some x" by (auto intro: watcherAt_append)
    have l: "watcherAt (logReconnectFailed e s1) i = watcherAt s1 i" for e
      by (rule watcherAt_cong) (simp add: logReconnectFailed_def)
    from a wj Ok p ji have "watcherAt sr' i = watcherAt s1 i"
      by (cases out) (auto simp: watcherAttempt_def l watcherAt_setPc_other)
    with w1 show ?thesis by simp
  qed
qed


lemma step_keeps_waiting:
  assumes s: "step up a sr = Some sr'" and n: "a \<noteq> WatcherSignal i"
    and w: "watcherAt sr i = Some (cl, E, AwaitDisconnect)"
  shows "watcherAt sr' i = Some (cl, E, AwaitDisconnect)"
proof (cases a)
  case (Configure new)
  with s have "watchers sr' = watchers sr"
    by (auto simp: ConfigureRemoteClientFunc_def split: if_splits)
  from watcherAt_cong [OF this, of i] w show ?thesis by simp
next
  case (CallGetClient E')
  with s w show ?thesis by simp
next
  case (CallGetOrCreateClient E')
  with s obtain r where "getOrCreateClient sr BgCtx E' = Ok (r, sr')"
    by (auto split: res.splits prod.splits)
  from getOrCreateClient_watchers [OF this] w show ?thesis
    by (auto intro: watcherAt_append)
next
  case (CallCloseAndRemoveClient E')
  with s have "watchers sr' = watchers sr"
    by (auto simp: closeAndRemoveClient_def issue_def split: option.splits)
  from watcherAt_cong [OF this, of i] w show ?thesis by simp
next
  case (WatcherSignal j)
  with n have ji: "j \<noteq> i" by simp
  from s WatcherSignal have "watcherSignal j sr = Some sr'" by simp
  from watcherSignal_other [OF this ji] w show ?thesis by simp
next
  case (WatcherRemove j)
  from s WatcherRemove have r: "watcherRemove j sr = Some sr'" by simp
  show ?thesis
  proof (cases "j = i")
    case True
    with r w show ?thesis by (simp add: watcherRemove_def)
  next
    case False
    from watcherRemove_other [OF r False] w show ?thesis by simp
  qed
next
  case (WatcherAttempt j el)
  from s WatcherAttempt have r: "watcherAttempt up j el sr = Some sr'" by simp
  show ?thesis
  proof (cases "j = i")
    case True
    with r w show ?thesis by (simp add: watcherAttempt_def)
  next
    case False
    from watcherAttempt_other [OF r False w] show ?thesis .
  qed
next
  case ServerClose
  with s have "watchers sr' = watchers sr" by auto
  from watcherAt_cong [OF this, of i] w show ?thesis by simp
next
  case CancelBgCtx
  with s have "watchers sr' = watchers sr" by auto
  from watcherAt_cong [OF this, of i] w show ?thesis by simp
next
  case (SetRepos rs)
  with s have "watchers sr' = watchers sr" by auto
  from watcherAt_cong [OF this, of i] w show ?thesis by simp
qed


lemma exec_keeps_waiting:
  "exec up as sr = Some sr' \<Longrightarrow> \<forall>a\<in>set as. a \<noteq> WatcherSignal i \<Longrightarrow>
   watcherAt sr i = Some (cl, E, AwaitDisconnect) \<Longrightarrow>
     watcherAt sr' i = Some (cl, E, AwaitDisconnect)"
proof (induction as arbitrary: sr)
  case Nil
  then show ?case by simp
next
  case (Cons a as)
  from Cons.prems(1) obtain s1 where s: "step up a sr = Some s1" "exec up as s1 = Some sr'"
    by (auto split: option.splits)
  from Cons.prems(2) have "a \<noteq> WatcherSignal i" by simp
  from step_keeps_waiting [OF s(1) this Cons.prems(3)] Cons.IH [OF s(2)] Cons.prems(2)
  show ?case by simp
qed

text \<open>
  C10. \<open>closeAndRemoveClient\<close> leaves the watcher of the closed connection running.
  Whatever happens afterwards, the watcher is still waiting for the disconnect signal;
  when it then sees the signal with the server not closed, it deletes the entry that is
  stored under its endpoint at that time, whichever connection that is, and its first
  retry round dials the endpoint again.
\<close>

theorem close_leaves_watcher_running:
  assumes cl: "closeAndRemoveClient up sr E = Ok (e, sr1)"
    and w: "watcherAt sr i = Some (c1, E, AwaitDisconnect)"
    and run: "exec up as sr1 = Some s" and ns: "\<forall>a\<in>set as. a \<noteq> WatcherSignal i"
    and nc: "\<not> closed s"
  shows "watchers sr1 = watchers sr \<and> watcherAt s i = Some (c1, E, AwaitDisconnect) \<and>
    (\<exists>s1 s2. step up (WatcherSignal i) s = Some s1 \<and> step up (WatcherRemove i) s1 = Some s2 \<and>
       getClient s2 E = None \<and>
       watcherAt s2 i = Some (c1, E, Retrying (InitialInterval remoteBackOff)) \<and>
       (\<forall>new. newClient s = Some new \<longrightarrow>
          (\<exists>s3. step up (WatcherAttempt i el) s2 = Some s3 \<and> dials s3 = dials s @ [(BgCtx, E)])))"
proof -
  from cl have a: "watchers sr1 = watchers sr"
    by (auto simp: closeAndRemoveClient_def issue_def split: option.splits)
  from watcherAt_cong [OF this, of i] w
  have "watcherAt sr1 i = Some (c1, E, AwaitDisconnect)" by simp
  from exec_keeps_waiting [OF run ns this] have b: "watcherAt s i = Some (c1, E, AwaitDisconnect)" .
  let ?s1 = "setPc i AwaitRemove (logDisconnected s)"
  let ?s2 = "setPc i (Retrying (InitialInterval remoteBackOff)) (deleteConn E ?s1)"
  note k = watcher_signal_then_remove [OF b nc]
  have "\<forall>new. newClient s = Some new \<longrightarrow>
          (\<exists>s3. step up (WatcherAttempt i el) ?s2 = Some s3 \<and> dials s3 = dials s @ [(BgCtx, E)])"
  proof (intro allI impI)
    fix new assume "newClient s = Some new"
    with k(9) have "newClient ?s2 = Some new" by simp
    from watcherAttempt_first_dial [OF k(4) this k(6), of up el] k(8)
    show "\<exists>s3. step up (WatcherAttempt i el) ?s2 = Some s3 \<and> dials s3 = dials s @ [(BgCtx, E)]"
      by simp
  qed
  with k(1,2,6,4) a b show ?thesis by blast
qed


lemma close_result: "closeAndRemoveClient peerOk connectedServer ''peerA'' = Ok (None, afterClose)"
  by (simp add: afterClose_def run_defs)

lemma redial_result: "exec peerOk [CallGetOrCreateClient ''peerA''] afterClose = Some afterRedial"
  by (simp add: afterClose_def afterRedial_def run_defs)

theorem close_leaves_watcher_running_witness:
  "closeAndRemoveClient peerOk connectedServer ''peerA'' = Ok (None, afterClose) \<and>
   watcherAt connectedServer 0 = Some (1, ''peerA'', AwaitDisconnect) \<and>
   exec peerOk [CallGetOrCreateClient ''peerA''] afterClose = Some afterRedial \<and>
   \<not> closed afterRedial \<and> getClient afterRedial ''peerA'' = Some 2 \<and>
   watcherAt afterRedial 0 = Some (1, ''peerA'', AwaitDisconnect) \<and>
   (\<exists>s1 s2. step peerOk (WatcherSignal 0) afterRedial = Some s1 \<and>
      step peerOk (WatcherRemove 0) s1 = Some s2 \<and> getClient s2 ''peerA'' = None \<and>
      (\<exists>s3. step peerOk (WatcherAttempt 0 0) s2 = Some s3 \<and>
         dials s3 = [(BgCtx, ''peerA''), (BgCtx, ''peerA''), (BgCtx, ''peerA'')]))"
proof -
  have ns: "\<forall>a\<in>set [CallGetOrCreateClient ''peerA'']. a \<noteq> WatcherSignal 0" by simp
  have c: "\<not> closed afterRedial"
    by (simp add: afterRedial_def afterClose_def connectedServer_def exampleServer_def newServer_def)
  have g: "getClient afterRedial ''peerA'' = Some 2"
    by (simp add: getClient_def afterRedial_def)
  have n: "newClient afterRedial = Some dialOk"
    by (simp add: afterRedial_def afterClose_def connectedServer_def exampleServer_def)
  have d: "dials afterRedial = [(BgCtx, ''peerA''), (BgCtx, ''peerA'')]"
    by (simp add: afterRedial_def)
  from close_leaves_watcher_running [OF close_result connectedServer_watcher redial_result ns c,
      of 0]
  obtain s1 s2 where s:
     "watcherAt afterRedial 0 = Some (1, ''peerA'', AwaitDisconnect)"
     "step peerOk (WatcherSignal 0) afterRedial = Some s1"
     "step peerOk (WatcherRemove 0) s1 = Some s2"
     "getClient s2 ''peerA'' = None"
     "\<forall>new. newClient afterRedial = Some new \<longrightarrow>
        (\<exists>s3. step peerOk (WatcherAttempt 0 0) s2 = Some s3 \<and>
              dials s3 = dials afterRedial @ [(BgCtx, ''peerA'')])"
    by blast
  from s(5) n have "\<exists>s3. step peerOk (WatcherAttempt 0 0) s2 = Some s3 \<and>
              dials s3 = dials afterRedial @ [(BgCtx, ''peerA'')]" by blast
  with d have "\<exists>s3. step peerOk (WatcherAttempt 0 0) s2 = Some s3 \<and>
         dials s3 = [(BgCtx, ''peerA''), (BgCtx, ''peerA''), (BgCtx, ''peerA'')]" by simp
  with s(1-4) close_result connectedServer_watcher redial_result c g show ?thesis by auto
qed

section \<open>The retry schedule of the watcher\<close>

lemma retryAttempt_Background:
  "retryAttempt up Background p E cur el sr =
     (case tryReconnect up Background sr E of
        Panic m \<Rightarrow> Panic m
      | Ok (None, sr') \<Rightarrow> Ok (Succeeded, sr')
      | Ok (Some e, sr') \<Rightarrow>
          if MaxElapsedTime p < el then Ok (GaveUp e, sr')
          else Ok (Sleep cur (cur * Multiplier p),
                   sr'\<lparr>logs := logs sr' @ [(''retry-reconnect-after-error'', e)]\<rparr>))"
  by (simp add: retryAttempt_def ctxDone_def NextBackOff_def
      split: res.splits prod.splits option.splits)

lemma retry_loop_rounds:
  "RetryNotifyWithContext fuel up Background p E dur k cur elapsed sr = Some (Ok (e, ds, t, sr')) \<Longrightarrow>
     t = elapsed + sum_list ds + sum_list (map dur [k..<Suc (k + length ds)]) \<and>
     (\<forall>j<length ds. elapsed + sum_list (take j ds) + sum_list (map dur [k..<Suc (k + j)])
          \<le> MaxElapsedTime p) \<and>
     (\<exists>sm. failedRounds up E (length ds) sr = Some sm \<and>
           tryReconnect up Background sm E = Ok (e, sr'))"
proof (induction fuel arbitrary: k cur elapsed sr e ds t sr')
  case 0
  then show ?case by simp
next
  case (Suc fuel)
  show ?case
  proof (cases "tryReconnect up Background sr E")
    case (Panic m)
    with Suc.prems show ?thesis by (simp add: retryAttempt_Background)
  next
    case (Ok q)
    obtain r s1 where q: "q = (r, s1)" by (cases q)
    show ?thesis
    proof (cases r)
      case None
      with Suc.prems Ok q show ?thesis by (simp add: retryAttempt_Background)
    next
      case (Some x)
      show ?thesis
      proof (cases "MaxElapsedTime p < elapsed + dur k")
        case True
        with Suc.prems Ok q Some show ?thesis by (simp add: retryAttempt_Background)
      next
        case False
        let ?s = "s1\<lparr>logs := logs s1 @ [(''retry-reconnect-after-error'', x)]\<rparr>"
        from Suc.prems Ok q Some False obtain ds' where
          d: "ds = cur # ds'" and
          l: "RetryNotifyWithContext fuel up Background p E dur (Suc k) (cur * Multiplier p)
                (elapsed + dur k + cur) ?s = Some (res.Ok (e, ds', t, sr'))"
          by (auto simp: retryAttempt_Background split: option.splits res.splits)
        from Suc.IH [OF l] obtain sm where
          i1: "t = elapsed + dur k + cur + sum_list ds' +
                 sum_list (map dur [Suc k..<Suc (Suc k + length ds')])"
          and i2: "\<forall>j<length ds'. elapsed + dur k + cur + sum_list (take j ds') +
                 sum_list (map dur [Suc k..<Suc (Suc k + j)]) \<le> MaxElapsedTime p"
          and i3: "failedRounds up E (length ds') ?s = Some sm"
                  "tryReconnect up Background sm E = res.Ok (e, sr')"
          by blast
        have u: "sum_list (map dur [k..<Suc (Suc (k + n))]) =
                   dur k + sum_list (map dur [Suc k..<Suc (Suc (k + n))])" for n
          by (simp add: upt_conv_Cons del: upt_Suc)
        have a: "t = elapsed + sum_list ds + sum_list (map dur [k..<Suc (k + length ds)])"
          using i1 d u [of "length ds'"] by (simp del: upt_Suc)
        have b: "\<forall>j<length ds. elapsed + sum_list (take j ds) +
                 sum_list (map dur [k..<Suc (k + j)]) \<le> MaxElapsedTime p"
        proof (intro allI impI)
          fix j assume j: "j < length ds"
          show "elapsed + sum_list (take j ds) + sum_list (map dur [k..<Suc (k + j)])
                  \<le> MaxElapsedTime p"
          proof (cases j)
            case 0
            with False show ?thesis by simp
          next
            case (Suc j')
            with j d have "j' < length ds'" by simp
            with i2 have "elapsed + dur k + cur + sum_list (take j' ds') +
                 sum_list (map dur [Suc k..<Suc (Suc k + j')]) \<le> MaxElapsedTime p" by blast
            then show ?thesis using Suc d u [of j'] by (simp del: upt_Suc)
          qed
        qed
        have c: "failedRounds up E (length ds) sr = Some sm"
          using i3(1) d Ok q Some by simp
        from a b c i3(2) show ?thesis by blast
      qed
    qed
  qed
qed


lemma watcher_runs_loop:
  assumes f: "8 \<le> fuel" and c: "\<not> closed sr" and n: "newClient sr = Some new"
  shows "\<exists>e ds t srL sm.
      RetryNotifyWithContext fuel up Background remoteBackOff E dur 0
         (InitialInterval remoteBackOff) 0 (deleteConn E (logDisconnected sr)) =
        Some (Ok (e, ds, t, srL)) \<and>
      watcher fuel up dur E sr =
        Some (Ok (case e of None \<Rightarrow> srL | Some x \<Rightarrow> logReconnectFailed x srL)) \<and>
      ds = map (\<lambda>j. 500 * 2 ^ j) [0..<length ds] \<and> length ds \<le> 7 \<and>
      t = sum_list ds + sum_list (map dur [0..<Suc (length ds)]) \<and>
      (\<forall>j<length ds. sum_list (take j ds) + sum_list (map dur [0..<Suc j]) \<le> 60000) \<and>
      (e = None \<and> getClient srL E \<noteq> None \<or> e \<noteq> None \<and> 60000 < t) \<and>
      failedRounds up E (length ds) (deleteConn E (logDisconnected sr)) = Some sm \<and>
      tryReconnect up Background sm E = Ok (e, srL) \<and>
      length (dials srL) \<le> length (dials sr) + 8"
proof -
  let ?s = "deleteConn E (logDisconnected sr)"
  have s: "newClient ?s = Some new" "dials ?s = dials sr"
    using n by (simp_all add: deleteConn_def logDisconnected_def)
  have i: "InitialInterval remoteBackOff = 500" "MaxElapsedTime remoteBackOff = 60000"
    by (simp_all add: remoteBackOff_def)
  from f have "8 \<le> 0 + fuel" "0 < fuel" by simp_all
  from retry_loop [OF _ _ this, of 500 0 up E dur ?s] obtain res where
    r: "RetryNotifyWithContext fuel up Background remoteBackOff E dur 0 500 0 ?s = Some res"
    and k: "case res of
          Panic m \<Rightarrow> newClient ?s = None
        | Ok (e, ds, t, sr') \<Rightarrow>
            ds = map (\<lambda>j. 500 * 2 ^ j) [0..<0 + length ds] \<and>
            length ds \<le> 7 - 0 \<and>
            (e = None \<and> getClient sr' E \<noteq> None \<or> e \<noteq> None \<and> 60000 < t) \<and>
            newClient sr' = newClient ?s \<and>
            length (dials sr') \<le> length (dials ?s) + Suc (length ds)"
    by auto
  from k s(1) obtain q where q: "res = Ok q" by (cases res) auto
  obtain e ds t srL where q': "q = (e, ds, t, srL)" by (cases q)
  from k q q' s(2) have k': "ds = map (\<lambda>j. 500 * 2 ^ j) [0..<length ds]" "length ds \<le> 7"
    "e = None \<and> getClient srL E \<noteq> None \<or> e \<noteq> None \<and> 60000 < t"
    "length (dials srL) \<le> length (dials sr) + Suc (length ds)" by auto
  from r q q' have r': "RetryNotifyWithContext fuel up Background remoteBackOff E dur 0 500 0 ?s
      = Some (Ok (e, ds, t, srL))" by simp
  from retry_loop_rounds [OF r'] i(2) obtain sm where
    m: "t = sum_list ds + sum_list (map dur [0..<Suc (length ds)])"
       "\<forall>j<length ds. sum_list (take j ds) + sum_list (map dur [0..<Suc j]) \<le> 60000"
       "failedRounds up E (length ds) ?s = Some sm"
       "tryReconnect up Background sm E = Ok (e, srL)"
    by auto
  have w: "watcher fuel up dur E sr =
        Some (Ok (case e of None \<Rightarrow> srL | Some x \<Rightarrow> logReconnectFailed x srL))"
    using r' c i(1) by (cases e) (simp_all add: watcher_def)
  have d: "length (dials srL) \<le> length (dials sr) + 8" using k'(2,4) by simp
  from r' i(1) have r'': "RetryNotifyWithContext fuel up Background remoteBackOff E dur 0
         (InitialInterval remoteBackOff) 0 ?s = Some (Ok (e, ds, t, srL))" by simp
  from r'' w k'(1,2,3) m d show ?thesis by blast
qed

lemma watcherAttempt_round:
  assumes w: "watcherAt s i = Some (cl, E, Retrying cur)"
    and a: "watcherAttempt up i el s = Some s'"
  shows "watcherAt s' i = Some (cl, E, Retrying (cur * 2)) \<and> el \<le> 60000 \<and>
           (\<exists>x. last (logs s') = (''retry-reconnect-after-error'', x)) \<or>
         watcherAt s' i = Some (cl, E, Exited) \<and>
           (getClient s' E \<noteq> None \<or>
            60000 < el \<and> (\<exists>x. last (logs s') = (''reconnect-failed-after-retries'', x)))"
proof (cases "retryAttempt up Background remoteBackOff E cur el s")
  case (Panic m)
  with a w show ?thesis by (simp add: watcherAttempt_def)
next
  case (Ok p)
  obtain out s1 where p: "p = (out, s1)" by (cases p)
  from retryAttempt_watchers [of up Background remoteBackOff E cur el s out s1] Ok p w
  have w1: "watcherAt s1 i = Some (cl, E, Retrying cur)" by (auto intro: watcherAt_append)
  note ch = retryAttempt_remoteBackOff [of up E cur el s "Ok (out, s1)"]
  show ?thesis
  proof (cases out)
    case Succeeded
    with a w Ok p have "s' = setPc i Exited s1" by (simp add: watcherAttempt_def)
    with watcherAt_setPc_same [OF w1, of Exited] ch Ok p Succeeded show ?thesis by simp
  next
    case (GaveUp x)
    have w2: "watcherAt (logReconnectFailed x s1) i = Some (cl, E, Retrying cur)"
      using w1 by (auto simp: watcherAt_def logReconnectFailed_def split: if_splits)
    from a w Ok p GaveUp have "s' = setPc i Exited (logReconnectFailed x s1)"
      by (simp add: watcherAttempt_def)
    with watcherAt_setPc_same [OF w2, of Exited] ch Ok p GaveUp show ?thesis
      by (simp add: logReconnectFailed_def)
  next
    case (Sleep d cur')
    from a w Ok p Sleep have e: "s' = setPc i (Retrying cur') s1" by (simp add: watcherAttempt_def)
    from Ok p Sleep have "\<exists>x. last (logs s1) = (''retry-reconnect-after-error'', x)"
      by (auto simp: retryAttempt_Background split: res.splits prod.splits option.splits if_splits)
    with e watcherAt_setPc_same [OF w1, of "Retrying cur'"] ch Ok p Sleep show ?thesis by simp
  qed
qed


text \<open>
  C6. The policy of \<open>remoteBackOff\<close> is 500 ms, multiplier 2, budget 60000 ms. With it
  the retry loop always ends within eight rounds, whatever the peers do and however long
  the rounds take. A run of the loop is: a number of failed rounds, each a call of
  \<open>tryReconnect\<close> followed by the Debug record and a sleep, and then one last round whose
  result is the result of the loop. The sleeps are 500, 1000, 2000, ... (each twice the
  one before, so non-decreasing), at most seven; the elapsed time is the sum of the
  rounds and the sleeps; every sleep was started with the elapsed time within the
  budget; the loop ends without error only with a connection in the registry, and with
  an error only when the elapsed time has exceeded the budget. The watcher, when the
  server is not closed, logs, deletes the entry, runs exactly this loop, and after a loop
  that ended with an error adds the Error log record and nothing else; it then returns,
  having dialled at most eight times. The same holds of the watcher as steps: a failed
  round within the budget doubles the interval, a failed round beyond it ends the
  watcher with the Error record.
\<close>

theorem remoteBackOff_retry_schedule:
  assumes f: "8 \<le> fuel"
  shows "InitialInterval remoteBackOff = 500 \<and> Multiplier remoteBackOff = 2 \<and>
    MaxElapsedTime remoteBackOff = 60000 \<and>
    (\<exists>res. RetryNotifyWithContext fuel up Background remoteBackOff E dur 0
              (InitialInterval remoteBackOff) 0 sr = Some res \<and>
       (case res of
          Panic m \<Rightarrow> newClient sr = None
        | Ok (e, ds, t, sr') \<Rightarrow>
            ds = map (\<lambda>j. 500 * 2 ^ j) [0..<length ds] \<and> sorted ds \<and> length ds \<le> 7 \<and>
            (e = None \<and> getClient sr' E \<noteq> None \<or> e \<noteq> None \<and> 60000 < t) \<and>
            length (dials sr') \<le> length (dials sr) + Suc (length ds))) \<and>
    (\<forall>cur el s out s'. retryAttempt up Background remoteBackOff E cur el s = Ok (out, s') \<longrightarrow>
       (case out of
          Succeeded \<Rightarrow> getClient s' E \<noteq> None
        | GaveUp e \<Rightarrow> 60000 < el
        | Sleep d cur' \<Rightarrow> el \<le> 60000 \<and> d = cur \<and> cur' = cur * 2)) \<and>
    (\<not> closed sr \<longrightarrow>
       (\<exists>res. watcher fuel up dur E sr = Some res \<and>
          (case res of
             Panic m \<Rightarrow> newClient sr = None
           | Ok sr' \<Rightarrow>
               length (dials sr') \<le> length (dials sr) + 8 \<and>
               (getClient sr' E \<noteq> None \<or>
                (\<exists>e. last (logs sr') = (''reconnect-failed-after-retries'', e)))))) \<and>
    (\<forall>e ds t sr'. RetryNotifyWithContext fuel up Background remoteBackOff E dur 0
              (InitialInterval remoteBackOff) 0 sr = Some (Ok (e, ds, t, sr')) \<longrightarrow>
       t = sum_list ds + sum_list (map dur [0..<Suc (length ds)]) \<and>
       (\<forall>j<length ds. sum_list (take j ds) + sum_list (map dur [0..<Suc j]) \<le> 60000) \<and>
       (\<exists>sm. failedRounds up E (length ds) sr = Some sm \<and>
             tryReconnect up Background sm E = Ok (e, sr'))) \<and>
    (closed sr \<longrightarrow> watcher fuel up dur E sr = Some (Ok sr)) \<and>
    (\<not> closed sr \<and> newClient sr \<noteq> None \<longrightarrow>
       (\<exists>e ds t srL sm.
          RetryNotifyWithContext fuel up Background remoteBackOff E dur 0
             (InitialInterval remoteBackOff) 0 (deleteConn E (logDisconnected sr)) =
            Some (Ok (e, ds, t, srL)) \<and>
          watcher fuel up dur E sr =
            Some (Ok (case e of None \<Rightarrow> srL | Some x \<Rightarrow> logReconnectFailed x srL)) \<and>
          ds = map (\<lambda>j. 500 * 2 ^ j) [0..<length ds] \<and> length ds \<le> 7 \<and>
          t = sum_list ds + sum_list (map dur [0..<Suc (length ds)]) \<and>
          (\<forall>j<length ds. sum_list (take j ds) + sum_list (map dur [0..<Suc j]) \<le> 60000) \<and>
          (e = None \<and> getClient srL E \<noteq> None \<or> e \<noteq> None \<and> 60000 < t) \<and>
          failedRounds up E (length ds) (deleteConn E (logDisconnected sr)) = Some sm \<and>
          tryReconnect up Background sm E = Ok (e, srL) \<and>
          length (dials srL) \<le> length (dials sr) + 8)) \<and>
    (\<forall>i s s' cl cur el. watcherAt s i = Some (cl, E, Retrying cur) \<and>
          step up (WatcherAttempt i el) s = Some s' \<longrightarrow>
       watcherAt s' i = Some (cl, E, Retrying (cur * 2)) \<and> el \<le> 60000 \<and>
         (\<exists>x. last (logs s') = (''retry-reconnect-after-error'', x)) \<or>
       watcherAt s' i = Some (cl, E, Exited) \<and>
         (getClient s' E \<noteq> None \<or>
          60000 < el \<and> (\<exists>x. last (logs s') = (''reconnect-failed-after-retries'', x))))"
proof -
  have m: "MaxElapsedTime remoteBackOff = 60000" by (simp add: remoteBackOff_def)
  have a: "\<forall>e ds t sr'. RetryNotifyWithContext fuel up Background remoteBackOff E dur 0
              (InitialInterval remoteBackOff) 0 sr = Some (Ok (e, ds, t, sr')) \<longrightarrow>
       t = sum_list ds + sum_list (map dur [0..<Suc (length ds)]) \<and>
       (\<forall>j<length ds. sum_list (take j ds) + sum_list (map dur [0..<Suc j]) \<le> 60000) \<and>
       (\<exists>sm. failedRounds up E (length ds) sr = Some sm \<and>
             tryReconnect up Background sm E = Ok (e, sr'))"
  proof (intro allI impI)
    fix e ds t sr'
    assume "RetryNotifyWithContext fuel up Background remoteBackOff E dur 0
              (InitialInterval remoteBackOff) 0 sr = Some (Ok (e, ds, t, sr'))"
    from retry_loop_rounds [OF this] m
    show "t = sum_list ds + sum_list (map dur [0..<Suc (length ds)]) \<and>
       (\<forall>j<length ds. sum_list (take j ds) + sum_list (map dur [0..<Suc j]) \<le> 60000) \<and>
       (\<exists>sm. failedRounds up E (length ds) sr = Some sm \<and>
             tryReconnect up Background sm E = Ok (e, sr'))"
      by simp
  qed
  have b: "closed sr \<longrightarrow> watcher fuel up dur E sr = Some (Ok sr)"
    by (simp add: watcher_def)
  have c: "\<not> closed sr \<and> newClient sr \<noteq> None \<longrightarrow>
       (\<exists>e ds t srL sm.
          RetryNotifyWithContext fuel up Background remoteBackOff E dur 0
             (InitialInterval remoteBackOff) 0 (deleteConn E (logDisconnected sr)) =
            Some (Ok (e, ds, t, srL)) \<and>
          watcher fuel up dur E sr =
            Some (Ok (case e of None \<Rightarrow> srL | Some x \<Rightarrow> logReconnectFailed x srL)) \<and>
          ds = map (\<lambda>j. 500 * 2 ^ j) [0..<length ds] \<and> length ds \<le> 7 \<and>
          t = sum_list ds + sum_list (map dur [0..<Suc (length ds)]) \<and>
          (\<forall>j<length ds. sum_list (take j ds) + sum_list (map dur [0..<Suc j]) \<le> 60000) \<and>
          (e = None \<and> getClient srL E \<noteq> None \<or> e \<noteq> None \<and> 60000 < t) \<and>
          failedRounds up E (length ds) (deleteConn E (logDisconnected sr)) = Some sm \<and>
          tryReconnect up Background sm E = Ok (e, srL) \<and>
          length (dials srL) \<le> length (dials sr) + 8)"
    using watcher_runs_loop [OF f, of sr _ up E dur] by auto
  have d: "\<forall>i s s' cl cur el. watcherAt s i = Some (cl, E, Retrying cur) \<and>
          step up (WatcherAttempt i el) s = Some s' \<longrightarrow>
       watcherAt s' i = Some (cl, E, Retrying (cur * 2)) \<and> el \<le> 60000 \<and>
         (\<exists>x. last (logs s') = (''retry-reconnect-after-error'', x)) \<or>
       watcherAt s' i = Some (cl, E, Exited) \<and>
         (getClient s' E \<noteq> None \<or>
          60000 < el \<and> (\<exists>x. last (logs s') = (''reconnect-failed-after-retries'', x)))"
  proof (intro allI impI)
    fix i s s' cl cur el
    assume h: "watcherAt s i = Some (cl, E, Retrying cur) \<and>
          step up (WatcherAttempt i el) s = Some s'"
    then have "watcherAt s i = Some (cl, E, Retrying cur)" "watcherAttempt up i el s = Some s'"
      by simp_all
    then show "watcherAt s' i = Some (cl, E, Retrying (cur * 2)) \<and> el \<le> 60000 \<and>
         (\<exists>x. last (logs s') = (''retry-reconnect-after-error'', x)) \<or>
       watcherAt s' i = Some (cl, E, Exited) \<and>
         (getClient s' E \<noteq> None \<or>
          60000 < el \<and> (\<exists>x. last (logs s') = (''reconnect-failed-after-retries'', x)))"
      by (rule watcherAttempt_round)
  qed
  from retry_schedule_core [OF f, of up E dur sr] a b c d show ?thesis by (intro conjI) blast+
qed

lemma refusing_run:
  "RetryNotifyWithContext (Suc (Suc (Suc (Suc (Suc (Suc (Suc (Suc 0)))))))) peerOk Background
     remoteBackOff ''peerA'' slowRounds 0 (InitialInterval remoteBackOff) 0 refusingServer =
     Some (Ok (Some ''connection refused'', [500, 1000], 61500, refusingServerAfterRetries))"
  by (simp add: retryAttempt_def tryReconnect_def getOrCreateClient_def
      ctxDone_def NextBackOff_def remoteBackOff_def refusingServer_def newServer_def
      dialRefused_def slowRounds_def refusingServerAfterRetries_def)

lemma refusing_watcher:
  "watcher (Suc (Suc (Suc (Suc (Suc (Suc (Suc (Suc 0)))))))) peerOk slowRounds ''peerA''
     refusingServer = Some (Ok refusingServerAfterWatcher)"
  by (simp add: watcher_def logDisconnected_def deleteConn_def logReconnectFailed_def
      retryAttempt_def tryReconnect_def getOrCreateClient_def
      ctxDone_def NextBackOff_def remoteBackOff_def refusingServer_def newServer_def
      dialRefused_def slowRounds_def refusingServerAfterWatcher_def)

theorem remoteBackOff_retry_schedule_witness:
  "(8::nat) \<le> Suc (Suc (Suc (Suc (Suc (Suc (Suc (Suc 0))))))) \<and>
   RetryNotifyWithContext (Suc (Suc (Suc (Suc (Suc (Suc (Suc (Suc 0)))))))) peerOk Background
     remoteBackOff ''peerA'' slowRounds 0 (InitialInterval remoteBackOff) 0 refusingServer =
     Some (Ok (Some ''connection refused'', [500, 1000], 61500, refusingServerAfterRetries)) \<and>
   [500, 1000 :: nat] = map (\<lambda>j. 500 * 2 ^ j) [0..<length [500, 1000 :: nat]] \<and>
   sorted [500, 1000 :: nat] \<and> (60000 :: nat) < 61500 \<and>
   length (dials refusingServerAfterRetries) \<le> length (dials refusingServer) + Suc (length [500, 1000 :: nat]) \<and>
   (61500 :: nat) = sum_list [500, 1000] + sum_list (map slowRounds [0..<Suc (length [500, 1000 :: nat])]) \<and>
   \<not> closed refusingServer \<and> newClient refusingServer = Some dialRefused \<and>
   watcher (Suc (Suc (Suc (Suc (Suc (Suc (Suc (Suc 0)))))))) peerOk slowRounds ''peerA''
     refusingServer = Some (Ok refusingServerAfterWatcher) \<and>
   last (logs refusingServerAfterWatcher) = (''reconnect-failed-after-retries'', ''connection refused'')"
proof -
  have h: "(8::nat) \<le> Suc (Suc (Suc (Suc (Suc (Suc (Suc (Suc 0)))))))" by simp
  note t = remoteBackOff_retry_schedule [OF h, of peerOk "''peerA''" slowRounds refusingServer,
      THEN conjunct2, THEN conjunct2, THEN conjunct2, THEN conjunct1]
  from t refusing_run
  have a: "[500, 1000 :: nat] = map (\<lambda>j. 500 * 2 ^ j) [0..<length [500, 1000 :: nat]] \<and>
   sorted [500, 1000 :: nat] \<and> (60000 :: nat) < 61500 \<and>
   length (dials refusingServerAfterRetries) \<le> length (dials refusingServer) + Suc (length [500, 1000 :: nat])"
    by auto
  have b: "(61500 :: nat) = sum_list [500, 1000] + sum_list (map slowRounds [0..<Suc (length [500, 1000 :: nat])])"
    by (simp add: slowRounds_def)
  have c: "\<not> closed refusingServer" "newClient refusingServer = Some dialRefused"
    by (simp_all add: refusingServer_def newServer_def)
  have d: "last (logs refusingServerAfterWatcher) = (''reconnect-failed-after-retries'', ''connection refused'')"
    by (simp add: refusingServerAfterWatcher_def)
  from h refusing_run a b c refusing_watcher d show ?thesis by blast
qed

end
